theory Spec2Isabelle
  imports Complex_Main "HOL-Library.Word"
begin

unbundle bit_operations_syntax

section \<open>Machine types\<close>

text \<open>
  The C++ types of \<^verbatim>\<open>util/bloom.cc\<close> and \<^verbatim>\<open>db/builder.cc\<close>: \<^verbatim>\<open>char\<close> is a byte,
  \<^verbatim>\<open>int\<close> a 32-bit two's complement word (read with \<open>sint\<close>), \<^verbatim>\<open>uint32_t\<close> a 32-bit
  word and \<^verbatim>\<open>size_t\<close> and \<^verbatim>\<open>uint64_t\<close> 64-bit words (an LP64 platform). A \<^verbatim>\<open>Slice\<close> and a
  \<^verbatim>\<open>std::string\<close> are byte sequences.
\<close>

type_synonym byte = "8 word"
type_synonym c_int = "32 word"
type_synonym uint32_t = "32 word"
type_synonym size_t = "64 word"
type_synonym uint64_t = "64 word"
type_synonym Slice = "byte list"

text \<open>
  Operations whose behaviour C++ leaves undefined are results of the model: a division
  by zero, and the conversion of a floating-point value to an unsigned type that cannot
  hold its truncation. A failing \<^verbatim>\<open>assert\<close> aborts the process.
\<close>

datatype fault = DivideByZero | FloatToUnsignedOutOfRange | AssertionFailed

section \<open>The bloom filter policy (util/bloom.cc)\<close>

subsection \<open>The constructor's floating-point product\<close>

text \<open>
  \<^verbatim>\<open>bits_per_key * 0.69\<close> is an IEEE-754 binary64 product. The literal \<^verbatim>\<open>0.69\<close> is the
  double \<^verbatim>\<open>0x1.6147ae147ae14p-1\<close>, that is \<open>6214967485771284 / 2 ^ 53\<close>; an \<^verbatim>\<open>int\<close>
  converts to a double exactly. The magnitude of a double is kept here as a natural
  number of units of \<open>2 ^ -53\<close>; \<open>round_to_double\<close> rounds such a magnitude to 53
  significant bits, to nearest and ties to even, as the multiplication does.
\<close>

definition double_0_69 :: nat where
  "double_0_69 = 6214967485771284"

fun bit_length :: "nat \<Rightarrow> nat" where
  "bit_length n = (if n = 0 then 0 else Suc (bit_length (n div 2)))"

declare bit_length.simps [simp del]

definition round_to_double :: "nat \<Rightarrow> nat" where
  "round_to_double N =
     (let e = bit_length N - 53;
          q = N div 2 ^ e;
          r = N mod 2 ^ e
      in if 2 * r > 2 ^ e \<or> (2 * r = 2 ^ e \<and> odd q) then (q + 1) * 2 ^ e else q * 2 ^ e)"

text \<open>The product \<^verbatim>\<open>bits_per_key * 0.69\<close>, in units of \<open>2 ^ -53\<close>, with its sign.\<close>

definition times_0_69 :: "int \<Rightarrow> int" where
  "times_0_69 b = sgn b * int (round_to_double (nat \<bar>b\<bar> * double_0_69))"

text \<open>
  \<^verbatim>\<open>static_cast<size_t>(d)\<close> truncates towards zero; the behaviour is undefined when
  the truncated value is not a value of \<^verbatim>\<open>size_t\<close>.
\<close>

definition static_cast_size_t :: "int \<Rightarrow> fault + size_t" where
  "static_cast_size_t d =
     (let t = sgn d * (\<bar>d\<bar> div 2 ^ 53)
      in if t < 0 \<or> 2 ^ 64 \<le> t then Inl FloatToUnsignedOutOfRange else Inr (word_of_int t))"

subsection \<open>The policy\<close>

text \<open>
  The private members \<^verbatim>\<open>bits_per_key_\<close> and \<^verbatim>\<open>k_\<close> are the fields \<open>bits_per_key_m\<close>
  and \<open>k_m\<close> (a name cannot end with an underscore here). The constructor converts its
  \<^verbatim>\<open>int\<close> argument to \<^verbatim>\<open>size_t\<close> (a sign extension) and clamps the truncated product to
  the range from 1 to 30.
\<close>

record BloomFilterPolicy =
  bits_per_key_m :: size_t
  k_m :: size_t

definition NewBloomFilterPolicy :: "c_int \<Rightarrow> fault + BloomFilterPolicy" where
  "NewBloomFilterPolicy bits_per_key =
     (case static_cast_size_t (times_0_69 (sint bits_per_key)) of
        Inl e \<Rightarrow> Inl e
      | Inr k0 \<Rightarrow>
          (let k1 = (if k0 < 1 then 1 else k0);
               k2 = (if k1 > 30 then 30 else k1)
           in Inr \<lparr>bits_per_key_m = scast bits_per_key, k_m = k2\<rparr>))"

text \<open>
  \<^verbatim>\<open>Hash\<close> of \<^verbatim>\<open>util/hash.h\<close> is not among the sources: it is the parameter \<open>Hash\<close> of
  everything that follows (the bytes of the key and a seed to a 32-bit value).
\<close>

definition BloomHash :: "(Slice \<Rightarrow> uint32_t \<Rightarrow> uint32_t) \<Rightarrow> Slice \<Rightarrow> uint32_t" where
  "BloomHash Hash key = Hash key 0xbc9f1d34"

text \<open>\<^verbatim>\<open>(h >> 17) | (h << 15)\<close>\<close>

definition rotate_delta :: "uint32_t \<Rightarrow> uint32_t" where
  "rotate_delta h = drop_bit 17 h OR push_bit 15 h"

text \<open>
  \<^verbatim>\<open>h % bits\<close>: \<open>h\<close> is promoted to \<^verbatim>\<open>size_t\<close>, and the remainder is stored in a
  \<^verbatim>\<open>uint32_t\<close>.
\<close>

definition bitpos_of :: "uint32_t \<Rightarrow> size_t \<Rightarrow> uint32_t" where
  "bitpos_of h bits = ucast ((ucast h :: size_t) mod bits)"

text \<open>\<^verbatim>\<open>1 << (bitpos % 8)\<close>, stored into a \<^verbatim>\<open>char\<close>.\<close>

definition bit_mask :: "uint32_t \<Rightarrow> byte" where
  "bit_mask bitpos = push_bit (unat (bitpos mod 8)) 1"

text \<open>
  The inner loop of \<open>CreateFilter\<close>, \<^verbatim>\<open>for (size_t j = 0; j < k_; j++)\<close>, by the number
  of rounds left. \<open>array\<close> points into \<open>dst\<close> at \<open>init_size\<close>, so the writes go to \<open>dst\<close>
  itself.
\<close>

fun set_probes :: "size_t \<Rightarrow> uint32_t \<Rightarrow> nat \<Rightarrow> nat \<Rightarrow> uint32_t \<Rightarrow> byte list
                    \<Rightarrow> fault + byte list" where
  "set_probes bits delta init_size 0 h dst = Inr dst"
| "set_probes bits delta init_size (Suc j) h dst =
     (if bits = 0 then Inl DivideByZero
      else let bitpos = bitpos_of h bits;
               i = init_size + unat (bitpos div 8)
           in set_probes bits delta init_size j (h + delta)
                (dst[i := dst ! i OR bit_mask bitpos]))"

text \<open>The outer loop, \<^verbatim>\<open>for (int i = 0; i < n; i++)\<close>, over the keys.\<close>

fun add_keys :: "(Slice \<Rightarrow> uint32_t \<Rightarrow> uint32_t) \<Rightarrow> size_t \<Rightarrow> size_t \<Rightarrow> nat \<Rightarrow> Slice list
                  \<Rightarrow> byte list \<Rightarrow> fault + byte list" where
  "add_keys Hash bits k init_size [] dst = Inr dst"
| "add_keys Hash bits k init_size (key # keys) dst =
     (let h = BloomHash Hash key;
          delta = rotate_delta h
      in case set_probes bits delta init_size (unat k) h dst of
           Inl e \<Rightarrow> Inl e
         | Inr dst' \<Rightarrow> add_keys Hash bits k init_size keys dst')"

text \<open>
  \<open>CreateFilter\<close>: \<open>keys\<close> is the array of \<open>n\<close> slices, \<open>n = length keys\<close> (an \<^verbatim>\<open>int\<close>,
  so below \<open>2 ^ 31\<close>), converted to \<^verbatim>\<open>size_t\<close> for the product with \<open>bits_per_key_m\<close>.
\<close>

definition CreateFilter :: "(Slice \<Rightarrow> uint32_t \<Rightarrow> uint32_t) \<Rightarrow> BloomFilterPolicy \<Rightarrow> Slice list
                             \<Rightarrow> byte list \<Rightarrow> fault + byte list" where
  "CreateFilter Hash p keys dst =
     (let n = (of_nat (length keys) :: size_t);
          bits0 = n * bits_per_key_m p;
          bits1 = (if bits0 < 64 then 64 else bits0);
          bytes = (bits1 + 7) div 8;
          bits = bytes * 8;
          init_size = length dst;
          dst1 = dst @ replicate (unat bytes) 0;
          dst2 = dst1 @ [ucast (k_m p)]
      in add_keys Hash bits (k_m p) init_size keys dst2)"

text \<open>The loop of \<open>KeyMayMatch\<close>.\<close>

fun test_probes :: "size_t \<Rightarrow> uint32_t \<Rightarrow> nat \<Rightarrow> uint32_t \<Rightarrow> byte list \<Rightarrow> fault + bool" where
  "test_probes bits delta 0 h array = Inr True"
| "test_probes bits delta (Suc j) h array =
     (if bits = 0 then Inl DivideByZero
      else let bitpos = bitpos_of h bits
           in if array ! unat (bitpos div 8) AND bit_mask bitpos = 0 then Inr False
              else test_probes bits delta j (h + delta) array)"

text \<open>
  \<open>KeyMayMatch\<close>. \<^verbatim>\<open>const size_t k = array[len-1]\<close> converts a \<^verbatim>\<open>char\<close>, taken as signed
  here (\<open>scast\<close>); with an unsigned \<^verbatim>\<open>char\<close> the bytes from 128 on are also above 30,
  so the result is the same.
\<close>

definition KeyMayMatch :: "(Slice \<Rightarrow> uint32_t \<Rightarrow> uint32_t) \<Rightarrow> BloomFilterPolicy \<Rightarrow> Slice
                            \<Rightarrow> byte list \<Rightarrow> fault + bool" where
  "KeyMayMatch Hash p key bloom_filter =
     (let len = (of_nat (length bloom_filter) :: size_t)
      in if len < 2 then Inr False
         else let array = bloom_filter;
                  bits = (len - 1) * 8;
                  k = (scast (array ! (length bloom_filter - 1)) :: size_t)
              in if k > 30 then Inr True
                 else let h = BloomHash Hash key;
                          delta = rotate_delta h
                      in test_probes bits delta (unat k) h array)"

text \<open>A hash function for the worked examples (any function serves).\<close>

definition sample_hash :: "Slice \<Rightarrow> uint32_t \<Rightarrow> uint32_t" where
  "sample_hash key seed = seed + of_nat (length key)"

section \<open>Building a table file (db/builder.cc)\<close>

text \<open>
  Modelled from the spec: \<^verbatim>\<open>Status\<close> (leveldb/status.h is not among the sources), with
  the error kinds of the spec's section 7, each carrying a message.
\<close>

datatype Status = OK | NotFound string | Corruption string | NotSupported string
  | InvalidArgument string | IOError string

definition ok :: "Status \<Rightarrow> bool" where
  "ok s = (s = OK)"

text \<open>
  Modelled from the spec: \<^verbatim>\<open>FileMetaData\<close> (db/version_edit.h is not among the sources),
  with the fields of the spec's section 3; \<^verbatim>\<open>InternalKey::DecodeFrom\<close> stores the bytes of
  the slice, so an internal key is kept as its encoding.
\<close>

record FileMetaData =
  allowed_seeks :: c_int
  number :: uint64_t
  file_size :: uint64_t
  smallest :: Slice
  largest :: Slice

text \<open>
  The input \<^verbatim>\<open>Iterator\<close>: the entries it yields from \<^verbatim>\<open>SeekToFirst\<close> until \<^verbatim>\<open>Valid()\<close>
  is false, and its \<^verbatim>\<open>status()\<close> from then on. An iterator that stops on an error has
  yielded a prefix of its data and a status that is not OK.
\<close>

record Iterator =
  entries :: "(Slice \<times> Slice) list"
  status :: Status

text \<open>
  What the collaborators of one call answer: \<^verbatim>\<open>Env::NewWritableFile\<close>,
  \<^verbatim>\<open>TableBuilder::Finish\<close> and \<^verbatim>\<open>FileSize\<close>, \<^verbatim>\<open>WritableFile::Sync\<close> and \<^verbatim>\<open>Close\<close>, and
  the status of the iterator that \<^verbatim>\<open>TableCache::NewIterator\<close> returns. Each is asked at
  most once in a call of \<open>BuildTable\<close>, so a record of answers covers every behaviour of
  theirs.
\<close>

record Answers =
  new_writable_file :: Status
  finish :: Status
  builder_file_size :: uint64_t
  sync :: Status
  close :: Status
  cache_iterator_status :: Status

text \<open>The calls \<open>BuildTable\<close> makes on its collaborators, in order.\<close>

datatype Call =
    Env_NewWritableFile string
  | Builder_New
  | Builder_Add Slice Slice
  | Builder_Finish
  | File_Sync
  | File_Close
  | Cache_NewIterator uint64_t uint64_t
  | Env_DeleteFile string

text \<open>The loop \<^verbatim>\<open>for (; iter->Valid(); iter->Next())\<close>.\<close>

fun add_entries :: "(Slice \<times> Slice) list \<Rightarrow> FileMetaData \<Rightarrow> Call list \<Rightarrow> FileMetaData \<times> Call list" where
  "add_entries [] meta calls = (meta, calls)"
| "add_entries ((key, val) # rest) meta calls =
     add_entries rest (meta\<lparr>largest := key\<rparr>) (calls @ [Builder_Add key val])"

text \<open>
  The end of \<open>BuildTable\<close>, from \<^verbatim>\<open>// Check for input iterator errors\<close>: the status of
  the input iterator replaces \<open>s\<close> when it is not OK, and the file is deleted unless
  \<open>s\<close> is OK and the file size positive.
\<close>

definition check_and_keep :: "Iterator \<Rightarrow> string \<Rightarrow> Status \<Rightarrow> FileMetaData \<Rightarrow> Call list
                                \<Rightarrow> Status \<times> FileMetaData \<times> Call list" where
  "check_and_keep iter fname s meta calls =
     (let s' = (if \<not> ok (status iter) then status iter else s)
      in if ok s' \<and> file_size meta > 0 then (s', meta, calls)
         else (s', meta, calls @ [Env_DeleteFile fname]))"

text \<open>
  \<open>BuildTable\<close>. \<^verbatim>\<open>TableFileName\<close> (db/filename.h) is not among the sources and is a
  parameter. The result is the returned status, \<^verbatim>\<open>*meta\<close> at the return and the calls
  made; \<^verbatim>\<open>assert(meta->file_size > 0)\<close> is the fault \<open>AssertionFailed\<close> when it fails.
\<close>

definition BuildTable :: "(string \<Rightarrow> uint64_t \<Rightarrow> string) \<Rightarrow> Answers \<Rightarrow> string \<Rightarrow> Iterator
                           \<Rightarrow> FileMetaData \<Rightarrow> fault + Status \<times> FileMetaData \<times> Call list" where
  "BuildTable TableFileName env dbname iter meta0 =
     (let meta = meta0\<lparr>file_size := 0\<rparr>;
          fname = TableFileName dbname (number meta)
      in if entries iter \<noteq> [] then
           (let s = new_writable_file env;
                calls1 = [Env_NewWritableFile fname]
            in if \<not> ok s then Inr (s, meta, calls1)
               else
                 (let calls2 = calls1 @ [Builder_New];
                      meta1 = meta\<lparr>smallest := fst (hd (entries iter))\<rparr>;
                      (meta2, calls3) = add_entries (entries iter) meta1 calls2;
                      s1 = finish env;
                      calls4 = calls3 @ [Builder_Finish]
                  in if ok s1 \<and> \<not> builder_file_size env > 0 then Inl AssertionFailed
                     else
                       (let meta3 = (if ok s1 then meta2\<lparr>file_size := builder_file_size env\<rparr>
                                     else meta2);
                            (s2, calls5) = (if ok s1 then (sync env, calls4 @ [File_Sync])
                                            else (s1, calls4));
                            (s3, calls6) = (if ok s2 then (close env, calls5 @ [File_Close])
                                            else (s2, calls5));
                            (s4, calls7) =
                              (if ok s3
                               then (cache_iterator_status env,
                                     calls6 @ [Cache_NewIterator (number meta3) (file_size meta3)])
                               else (s3, calls6))
                        in Inr (check_and_keep iter fname s4 meta3 calls7))))
         else Inr (check_and_keep iter fname OK meta []))"

text \<open>Sample arguments for the worked examples.\<close>

definition sample_TableFileName :: "string \<Rightarrow> uint64_t \<Rightarrow> string" where
  "sample_TableFileName dbname n = dbname @ ''/'' @ replicate (unat n) CHR ''1'' @ ''.ldb''"

definition sample_meta :: FileMetaData where
  "sample_meta = \<lparr>allowed_seeks = 0, number = 3, file_size = 99, smallest = [], largest = []\<rparr>"

definition sample_iter :: Iterator where
  "sample_iter = \<lparr>entries = [([1], [10]), ([2], [20])], status = OK\<rparr>"

definition sample_answers :: Answers where
  "sample_answers = \<lparr>new_writable_file = OK, finish = OK, builder_file_size = 120, sync = OK,
                       close = OK, cache_iterator_status = OK\<rparr>"

section \<open>The coordinator (db/db_impl.h)\<close>

text \<open>
  Only the declaration of \<^verbatim>\<open>DBImpl\<close> is among the sources: its members and the comments
  on them. The bodies of \<^verbatim>\<open>MaybeScheduleCompaction\<close>, \<^verbatim>\<open>MakeRoomForWrite\<close> and
  \<^verbatim>\<open>CompactMemTable\<close> (db/db_impl.cc) are not.
\<close>

text \<open>
  Modelled from the spec: a version edit (section 3), as far as a flush makes one: the
  file added at a level and the new log number.
\<close>

record VersionEdit =
  edit_level :: nat
  edit_file :: uint64_t
  edit_log_number :: uint64_t

text \<open>
  Modelled from the spec: the state of the coordinator, the part of \<^verbatim>\<open>DBImpl\<close> that the
  three functions read and write, all of it guarded by \<^verbatim>\<open>mutex_\<close>. A memtable is kept as
  its size in bytes, \<open>imm\<close> is \<open>None\<close> for a null \<^verbatim>\<open>imm_\<close>, \<open>manual_compaction\<close> says that
  \<^verbatim>\<open>manual_compaction_\<close> is not null, and of the version set (\<^verbatim>\<open>versions_\<close>) the state
  keeps the number of level-0 files, whether the current version needs a compaction, the
  log number, the next file number and the records written to the descriptor.
  \<open>background_tasks\<close> counts the tasks handed to the environment's background thread
  that have not finished.
\<close>

record Coordinator =
  bg_error :: Status
  mem :: nat
  imm :: "nat option"
  write_buffer_size :: nat
  logfile_number :: uint64_t
  log_number :: uint64_t
  next_file_number :: uint64_t
  l0_files :: nat
  needs_compaction :: bool
  manual_compaction :: bool
  background_compaction_scheduled :: bool
  background_tasks :: nat
  descriptor :: "VersionEdit list"

text \<open>Modelled from the spec: the two triggers of section 4.2.\<close>

definition kL0_SlowdownWritesTrigger :: nat where
  "kL0_SlowdownWritesTrigger = 8"

definition kL0_StopWritesTrigger :: nat where
  "kL0_StopWritesTrigger = 12"

text \<open>
  Modelled from the spec: the body of \<^verbatim>\<open>DBImpl::MaybeScheduleCompaction\<close>, which
  ``only schedules when work exists and none is pending'' (section 5); work is a sealed
  memtable to flush (section 4.3), a manual compaction or a version that needs one
  (sections 4.4 and 4.5). \<^verbatim>\<open>background_compaction_scheduled_\<close> is set for as long as a
  task is scheduled or running.
\<close>

definition work_exists :: "Coordinator \<Rightarrow> bool" where
  "work_exists db = (imm db \<noteq> None \<or> manual_compaction db \<or> needs_compaction db)"

definition MaybeScheduleCompaction :: "Coordinator \<Rightarrow> Coordinator" where
  "MaybeScheduleCompaction db =
     (if background_compaction_scheduled db then db
      else if \<not> work_exists db then db
      else db\<lparr>background_compaction_scheduled := True,
              background_tasks := background_tasks db + 1\<rparr>)"

text \<open>
  Modelled from the spec: the end of the background task (\<^verbatim>\<open>DBImpl::BackgroundCall\<close>):
  the worker's exit clears the flag and looks for more work.
\<close>

definition BackgroundCall_exit :: "Coordinator \<Rightarrow> Coordinator" where
  "BackgroundCall_exit db =
     (if background_tasks db = 0 then db
      else MaybeScheduleCompaction
             (db\<lparr>background_compaction_scheduled := False,
                 background_tasks := background_tasks db - 1\<rparr>))"

text \<open>
  Modelled from the spec: what the threads of the coordinator do to the scheduling state
  (section 5), one step at a time, each under the mutex: a call of
  \<open>MaybeScheduleCompaction\<close>, the exit of the background task, and any change of the work
  there is to do.
\<close>

datatype Step = Call_MaybeScheduleCompaction | Worker_Exit | Change_Work "nat option" bool bool

fun step :: "Coordinator \<Rightarrow> Step \<Rightarrow> Coordinator" where
  "step db Call_MaybeScheduleCompaction = MaybeScheduleCompaction db"
| "step db Worker_Exit = BackgroundCall_exit db"
| "step db (Change_Work i m n) = db\<lparr>imm := i, manual_compaction := m, needs_compaction := n\<rparr>"

definition run :: "Coordinator \<Rightarrow> Step list \<Rightarrow> Coordinator" where
  "run db steps = foldl step db steps"

text \<open>
  Modelled from the spec: the body of \<^verbatim>\<open>DBImpl::MakeRoomForWrite\<close>, the table of
  section 4.2 row by row. Where the writer sleeps or waits it releases the mutex, and the
  other threads change the state: \<open>others\<close> lists what they do to it at each such point,
  and the result is \<open>None\<close> when the writer is still blocked at the end of the list.
\<close>

datatype Action = Sleep_1ms | Wait_Background_Work | Roll_WAL uint64_t

definition roll_wal :: "Coordinator \<Rightarrow> Coordinator" where
  "roll_wal db =
     MaybeScheduleCompaction
       (db\<lparr>logfile_number := next_file_number db,
           next_file_number := next_file_number db + 1,
           imm := Some (mem db),
           mem := 0\<rparr>)"

function MakeRoomForWrite_loop :: "bool \<Rightarrow> bool \<Rightarrow> (Coordinator \<Rightarrow> Coordinator) list \<Rightarrow> Coordinator
    \<Rightarrow> Action list \<Rightarrow> Status option \<times> Coordinator \<times> Action list" where
  "MakeRoomForWrite_loop force delayed others db acts =
     (if \<not> ok (bg_error db) then (Some (bg_error db), db, acts)
      else if \<not> force \<and> mem db < write_buffer_size db then (Some OK, db, acts)
      else if kL0_SlowdownWritesTrigger \<le> l0_files db \<and> \<not> delayed then
        (case others of
           [] \<Rightarrow> (None, db, acts @ [Sleep_1ms])
         | other # rest \<Rightarrow>
             MakeRoomForWrite_loop force True rest (other db) (acts @ [Sleep_1ms]))
      else if \<not> mem db < write_buffer_size db \<and> imm db \<noteq> None then
        (case others of
           [] \<Rightarrow> (None, db, acts @ [Wait_Background_Work])
         | other # rest \<Rightarrow>
             MakeRoomForWrite_loop force delayed rest (other db) (acts @ [Wait_Background_Work]))
      else if kL0_StopWritesTrigger \<le> l0_files db then
        (case others of
           [] \<Rightarrow> (None, db, acts @ [Wait_Background_Work])
         | other # rest \<Rightarrow>
             MakeRoomForWrite_loop force delayed rest (other db) (acts @ [Wait_Background_Work]))
      else MakeRoomForWrite_loop False delayed others (roll_wal db)
             (acts @ [Roll_WAL (next_file_number db)]))"
  by pat_completeness auto
termination
proof (relation "measure (\<lambda>(force, delayed, others, db, acts).
          3 * length others + (if force then 1 else 0) + (if imm db = None then 1 else 0))")
qed (auto simp: roll_wal_def MaybeScheduleCompaction_def)

declare MakeRoomForWrite_loop.simps [simp del]

definition MakeRoomForWrite :: "bool \<Rightarrow> (Coordinator \<Rightarrow> Coordinator) list \<Rightarrow> Coordinator
    \<Rightarrow> Status option \<times> Coordinator \<times> Action list" where
  "MakeRoomForWrite force others db = MakeRoomForWrite_loop force False others db []"

text \<open>
  Modelled from the spec: the body of \<^verbatim>\<open>DBImpl::CompactMemTable\<close>, section 4.3. Steps 1
  to 4 (\<^verbatim>\<open>WriteLevel0Table\<close>) answer with a status, the level chosen and the number of the
  new file; step 5 (the version set's application of the edit, which writes the
  descriptor) answers with a status and, for the version it installs, whether that
  needs a compaction. On success \<open>imm\<close> is cleared and the obsolete files
  are deleted; on a failure the status is recorded in \<open>bg_error\<close>.
\<close>

record FlushAnswers =
  write_level0_table :: Status
  chosen_level :: nat
  new_file :: uint64_t
  log_and_apply :: Status
  compaction_needed :: bool

datatype FlushAction = Write_Level0_Table | Write_Descriptor VersionEdit | Delete_Obsolete_Files

definition CompactMemTable :: "FlushAnswers \<Rightarrow> Coordinator \<Rightarrow> Coordinator \<times> FlushAction list" where
  "CompactMemTable env db =
     (let s = write_level0_table env;
          edit = \<lparr>edit_level = chosen_level env, edit_file = new_file env,
                  edit_log_number = logfile_number db\<rparr>
      in if \<not> ok s then (db\<lparr>bg_error := s\<rparr>, [Write_Level0_Table])
         else
           (let s' = log_and_apply env
            in if \<not> ok s' then (db\<lparr>bg_error := s'\<rparr>, [Write_Level0_Table])
               else (db\<lparr>log_number := logfile_number db,
                        descriptor := descriptor db @ [edit],
                        l0_files := (if chosen_level env = 0 then l0_files db + 1
                                     else l0_files db),
                        needs_compaction := compaction_needed env,
                        imm := None\<rparr>,
                     [Write_Level0_Table, Write_Descriptor edit, Delete_Obsolete_Files])))"

text \<open>A coordinator and a flush for the worked examples.\<close>

definition sample_db :: Coordinator where
  "sample_db = \<lparr>bg_error = OK, mem = 5000, imm = Some 4200, write_buffer_size = 4096,
                  logfile_number = 7, log_number = 5, next_file_number = 9, l0_files = 9,
                  needs_compaction = True, manual_compaction = False,
                  background_compaction_scheduled = True, background_tasks = 1,
                  descriptor = []\<rparr>"

definition sample_flush :: FlushAnswers where
  "sample_flush = \<lparr>write_level0_table = OK, chosen_level = 0, new_file = 8,
                     log_and_apply = OK, compaction_needed = True\<rparr>"

definition sample_flush_done :: "Coordinator \<Rightarrow> Coordinator" where
  "sample_flush_done db = db\<lparr>imm := None, l0_files := l0_files db + 1\<rparr>"

section \<open>Properties of the bloom filter\<close>

subsection \<open>Bit positions and masks\<close>

lemma unat_lt_32: "unat (h :: 32 word) < 4294967296"
proof -
  have "unat h < 2 ^ LENGTH(32)" by (rule unsigned_less)
  then show ?thesis by simp
qed

lemma unat_ucast_32_64: "unat (ucast (h :: 32 word) :: 64 word) = unat h"
  using unat_lt_32 [of h] by (simp add: unsigned_ucast_eq take_bit_nat_eq_self)

lemma unat_bitpos_of: "bits \<noteq> 0 \<Longrightarrow> unat (bitpos_of h bits) = unat h mod unat bits"
proof -
  assume nz: "bits \<noteq> 0"
  have b: "unat ((ucast h :: size_t) mod bits) = unat h mod unat bits"
    by (simp add: unat_mod unat_ucast_32_64)
  have c: "unat h mod unat bits < 4294967296"
    using unat_lt_32 [of h] by (meson le_less_trans mod_less_eq_dividend)
  show ?thesis
    unfolding bitpos_of_def using b c
    by (simp add: unsigned_ucast_eq take_bit_nat_eq_self)
qed

lemma bitpos_of_less: "bits \<noteq> 0 \<Longrightarrow> unat (bitpos_of h bits) < unat bits"
  by (simp add: unat_bitpos_of unat_gt_0)

lemma bit_mask_eq: "bit_mask p = 2 ^ (unat p mod 8)"
  by (simp add: bit_mask_def unat_mod)

lemma and_bit_mask: "(b AND bit_mask p = 0) = (\<not> bit b (unat p mod 8))"
  by (simp add: and_exp_eq_0_iff_not_bit bit_mask_eq)

lemma or_bit_mask: "bit (b OR bit_mask p) n = (bit b n \<or> n = unat p mod 8)"
  by (auto simp add: bit_or_iff bit_mask_eq bit_exp_iff)

subsection \<open>The probes of \<open>CreateFilter\<close> and \<open>KeyMayMatch\<close>\<close>

text \<open>
  \<open>set_probes\<close> keeps the length of \<open>dst\<close>, only sets bits, writes inside the filter's
  bytes only, and leaves every probed bit set.
\<close>

lemma set_probes_length:
  "set_probes bits delta init_size j h dst = Inr dst' \<Longrightarrow> length dst' = length dst"
proof (induction j arbitrary: h dst)
  case 0
  then show ?case by simp
next
  case (Suc j)
  then show ?case by (auto simp: Let_def split: if_splits)
qed

lemma set_probes_mono:
  "set_probes bits delta init_size j h dst = Inr dst' \<Longrightarrow> i < length dst \<Longrightarrow> bit (dst ! i) n
   \<Longrightarrow> bit (dst' ! i) n"
proof (induction j arbitrary: h dst)
  case 0
  then show ?case by simp
next
  case (Suc j)
  let ?p = "bitpos_of h bits"
  let ?i = "init_size + unat (?p div 8)"
  let ?d = "dst[?i := dst ! ?i OR bit_mask ?p]"
  from Suc.prems(1) have nz: "bits \<noteq> 0" and run: "set_probes bits delta init_size j (h + delta) ?d = Inr dst'"
    by (auto simp: Let_def split: if_splits)
  have "bit (?d ! i) n"
  proof (cases "i = ?i")
    case True
    with Suc.prems(2,3) show ?thesis by (simp add: bit_or_iff)
  next
    case False
    with Suc.prems(3) show ?thesis by simp
  qed
  with Suc.IH [OF run] Suc.prems(2) show ?case by simp
qed

lemma set_probes_frame:
  "set_probes bits delta init_size j h dst = Inr dst' \<Longrightarrow> unat bits \<le> 8 * B
   \<Longrightarrow> i < init_size \<or> init_size + B \<le> i \<Longrightarrow> dst' ! i = dst ! i"
proof (induction j arbitrary: h dst)
  case 0
  then show ?case by simp
next
  case (Suc j)
  let ?p = "bitpos_of h bits"
  let ?i = "init_size + unat (?p div 8)"
  let ?d = "dst[?i := dst ! ?i OR bit_mask ?p]"
  from Suc.prems(1) have nz: "bits \<noteq> 0" and run: "set_probes bits delta init_size j (h + delta) ?d = Inr dst'"
    by (auto simp: Let_def split: if_splits)
  have "unat ?p < 8 * B" using bitpos_of_less [OF nz, of h] Suc.prems(2) by simp
  then have "unat (?p div 8) < B" by (simp add: unat_div)
  with Suc.prems(3) have "i \<noteq> ?i" by auto
  then have "?d ! i = dst ! i" by simp
  with Suc.IH [OF run Suc.prems(2,3)] show ?case by simp
qed

lemma test_probes_mono:
  "test_probes bits delta j h xs = Inr True \<Longrightarrow> length ys = length xs \<Longrightarrow> unat bits \<le> 8 * length xs
   \<Longrightarrow> (\<And>i n. i < length xs \<Longrightarrow> bit (xs ! i) n \<Longrightarrow> bit (ys ! i) n)
   \<Longrightarrow> test_probes bits delta j h ys = Inr True"
proof (induction j arbitrary: h)
  case 0
  then show ?case by simp
next
  case (Suc j)
  let ?p = "bitpos_of h bits"
  from Suc.prems(1) have nz: "bits \<noteq> 0" 
    and hit: "bit (xs ! unat (?p div 8)) (unat ?p mod 8)"
    and rest: "test_probes bits delta j (h + delta) xs = Inr True"
    by (auto simp: Let_def and_bit_mask split: if_splits)
  have "unat ?p < 8 * length xs" using bitpos_of_less [OF nz, of h] Suc.prems(3) by simp
  then have "unat (?p div 8) < length xs" by (simp add: unat_div)
  with hit Suc.prems(4) have "bit (ys ! unat (?p div 8)) (unat ?p mod 8)" by blast
  moreover have "test_probes bits delta j (h + delta) ys = Inr True"
    using Suc.IH [OF rest Suc.prems(2,3)] Suc.prems(4) by blast
  ultimately show ?case using nz by (simp add: Let_def and_bit_mask)
qed

lemma set_probes_hits:
  "set_probes bits delta init_size j h dst = Inr dst' \<Longrightarrow> unat bits \<le> 8 * B
   \<Longrightarrow> init_size + B \<le> length dst
   \<Longrightarrow> test_probes bits delta j h (drop init_size dst') = Inr True"
proof (induction j arbitrary: h dst)
  case 0
  then show ?case by simp
next
  case (Suc j)
  let ?p = "bitpos_of h bits"
  let ?i = "init_size + unat (?p div 8)"
  let ?d = "dst[?i := dst ! ?i OR bit_mask ?p]"
  from Suc.prems(1) have nz: "bits \<noteq> 0" and run: "set_probes bits delta init_size j (h + delta) ?d = Inr dst'"
    by (auto simp: Let_def split: if_splits)
  have "unat ?p < 8 * B" using bitpos_of_less [OF nz, of h] Suc.prems(2) by simp
  then have "unat (?p div 8) < B" by (simp add: unat_div)
  with Suc.prems(3) have in_range: "?i < length dst" by simp
  then have "bit (?d ! ?i) (unat ?p mod 8)" by (simp add: or_bit_mask)
  with set_probes_mono [OF run, of ?i] in_range have "bit (dst' ! ?i) (unat ?p mod 8)" by simp
  moreover have "length dst' = length dst" using set_probes_length [OF run] by simp
  ultimately have hit: "bit (drop init_size dst' ! unat (?p div 8)) (unat ?p mod 8)"
    using in_range by simp
  have "test_probes bits delta j (h + delta) (drop init_size dst') = Inr True"
    using Suc.IH [OF run Suc.prems(2)] Suc.prems(3) by simp
  with hit nz show ?case by (simp add: Let_def and_bit_mask)
qed

lemma add_keys_length:
  "add_keys Hash bits k init_size keys dst = Inr dst' \<Longrightarrow> length dst' = length dst"
proof (induction keys arbitrary: dst)
  case Nil
  then show ?case by simp
next
  case (Cons key keys)
  then show ?case
    by (auto simp: Let_def split: sum.splits dest: set_probes_length)
qed

lemma add_keys_mono:
  "add_keys Hash bits k init_size keys dst = Inr dst' \<Longrightarrow> i < length dst \<Longrightarrow> bit (dst ! i) n
   \<Longrightarrow> bit (dst' ! i) n"
proof (induction keys arbitrary: dst)
  case Nil
  then show ?case by simp
next
  case (Cons key keys)
  let ?h = "BloomHash Hash key"
  from Cons.prems(1) obtain d where
    one: "set_probes bits (rotate_delta ?h) init_size (unat k) ?h dst = Inr d"
    and rest: "add_keys Hash bits k init_size keys d = Inr dst'"
    by (auto simp: Let_def split: sum.splits)
  have "bit (d ! i) n" using set_probes_mono [OF one Cons.prems(2,3)] .
  moreover have "i < length d" using set_probes_length [OF one] Cons.prems(2) by simp
  ultimately show ?case using Cons.IH [OF rest] by simp
qed

lemma add_keys_frame:
  "add_keys Hash bits k init_size keys dst = Inr dst' \<Longrightarrow> unat bits \<le> 8 * B
   \<Longrightarrow> i < init_size \<or> init_size + B \<le> i \<Longrightarrow> dst' ! i = dst ! i"
proof (induction keys arbitrary: dst)
  case Nil
  then show ?case by simp
next
  case (Cons key keys)
  let ?h = "BloomHash Hash key"
  from Cons.prems(1) obtain d where
    one: "set_probes bits (rotate_delta ?h) init_size (unat k) ?h dst = Inr d"
    and rest: "add_keys Hash bits k init_size keys d = Inr dst'"
    by (auto simp: Let_def split: sum.splits)
  have "d ! i = dst ! i" using set_probes_frame [OF one Cons.prems(2,3)] .
  with Cons.IH [OF rest Cons.prems(2,3)] show ?case by simp
qed

lemma add_keys_hits:
  "add_keys Hash bits k init_size keys dst = Inr dst' \<Longrightarrow> unat bits \<le> 8 * B
   \<Longrightarrow> init_size + B \<le> length dst \<Longrightarrow> key \<in> set keys
   \<Longrightarrow> test_probes bits (rotate_delta (BloomHash Hash key)) (unat k) (BloomHash Hash key)
         (drop init_size dst') = Inr True"
proof (induction keys arbitrary: dst)
  case Nil
  then show ?case by simp
next
  case (Cons key' keys)
  let ?h = "BloomHash Hash key'"
  from Cons.prems(1) obtain d where
    one: "set_probes bits (rotate_delta ?h) init_size (unat k) ?h dst = Inr d"
    and rest: "add_keys Hash bits k init_size keys d = Inr dst'"
    by (auto simp: Let_def split: sum.splits)
  have len_d: "length d = length dst" using set_probes_length [OF one] .
  have len': "length dst' = length d" using add_keys_length [OF rest] .
  show ?case
  proof (cases "key = key'")
    case True
    have hit: "test_probes bits (rotate_delta ?h) (unat k) ?h (drop init_size d) = Inr True"
      using set_probes_hits [OF one Cons.prems(2,3)] .
    have "test_probes bits (rotate_delta ?h) (unat k) ?h (drop init_size dst') = Inr True"
    proof (rule test_probes_mono [OF hit])
      show "length (drop init_size dst') = length (drop init_size d)" using len' by simp
      show "unat bits \<le> 8 * length (drop init_size d)"
        using Cons.prems(2,3) len_d by simp
      fix i n
      assume "i < length (drop init_size d)" and "bit (drop init_size d ! i) n"
      then show "bit (drop init_size dst' ! i) n"
        using add_keys_mono [OF rest, of "init_size + i" n] len' by simp
    qed
    with True show ?thesis by simp
  next
    case False
    with Cons.prems(4) have "key \<in> set keys" by simp
    with Cons.IH [OF rest Cons.prems(2)] Cons.prems(3) len_d show ?thesis by simp
  qed
qed

lemma set_probes_total:
  "bits \<noteq> 0 \<Longrightarrow> \<exists>d. set_probes bits delta init_size j h dst = Inr d"
  by (induction j arbitrary: h dst) (simp_all add: Let_def)

lemma add_keys_total:
  "bits \<noteq> 0 \<Longrightarrow> \<exists>d. add_keys Hash bits k init_size keys dst = Inr d"
proof (induction keys arbitrary: dst)
  case Nil
  then show ?case by simp
next
  case (Cons key keys)
  from set_probes_total [OF Cons.prems]
  obtain d where "set_probes bits (rotate_delta (BloomHash Hash key)) init_size (unat k)
                    (BloomHash Hash key) dst = Inr d"
    by blast
  with Cons.IH [OF Cons.prems, of d] show ?case by (simp add: Let_def)
qed

lemma add_keys_zero_bits:
  "keys \<noteq> [] \<Longrightarrow> k \<noteq> 0 \<Longrightarrow> add_keys Hash 0 k init_size keys dst = Inl DivideByZero"
proof -
  assume "keys \<noteq> []" and "k \<noteq> 0"
  then obtain key ks j where "keys = key # ks" and "unat k = Suc j"
    by (metis list.exhaust not0_implies_Suc unat_eq_0)
  then show ?thesis by (simp add: Let_def)
qed

subsection \<open>The size of the filter and its last byte\<close>

lemma policy_k_range:
  "NewBloomFilterPolicy bits_per_key = Inr p \<Longrightarrow> 1 \<le> k_m p \<and> k_m p \<le> 30"
proof -
  have one: "1 \<le> x" if "x \<noteq> 0" for x :: size_t
    using that by (simp add: word_le_nat_alt Suc_le_eq unat_gt_0)
  assume "NewBloomFilterPolicy bits_per_key = Inr p"
  then show ?thesis
    by (auto simp: NewBloomFilterPolicy_def Let_def one split: sum.splits if_splits)
qed

lemma char_of_k:
  assumes "k \<le> 30"
  shows "(scast (ucast (k :: size_t) :: byte) :: size_t) = k"
proof -
  from assms have k: "uint k \<le> 30" by (simp add: word_le_def)
  have u: "uint (ucast k :: byte) = uint k"
    using k by (simp add: unsigned_ucast_eq take_bit_int_eq_self)
  have lo: "- (2 ^ 7) \<le> uint k" by (rule order_trans [of _ 0]) simp_all
  have hi: "uint k < 2 ^ 7" using k by simp
  have "signed_take_bit 7 (uint k) = uint k"
    by (rule signed_take_bit_int_eq_self [OF lo hi])
  then have "sint (ucast k :: byte) = uint k"
    by (simp add: sint_uint u)
  then show ?thesis by (simp add: scast_eq)
qed

lemma filter_bytes_bound: "unat (((x :: size_t) + 7) div 8) * 8 < 18446744073709551616"
proof -
  have "unat (x + 7) < 2 ^ LENGTH(64)" by (rule unsigned_less)
  moreover have "unat ((x + 7) div 8) * 8 \<le> unat (x + 7)" by (simp add: unat_div)
  ultimately show ?thesis by simp
qed

lemma unat_filter_bits: "unat ((((x :: size_t) + 7) div 8) * 8) = 8 * unat ((x + 7) div 8)"
  using filter_bytes_bound [of x]
  by (simp add: unat_word_ariths mult.commute)

lemma CreateFilter_result:
  assumes run: "CreateFilter Hash p keys dst = Inr dst'"
    and bits0_def: "bits0 = of_nat (length keys) * bits_per_key_m p"
    and bytes_def: "bytes = ((if bits0 < 64 then 64 else bits0) + 7) div 8"
  shows "add_keys Hash (bytes * 8) (k_m p) (length dst) keys
           (dst @ replicate (unat bytes) 0 @ [ucast (k_m p)]) = Inr dst'"
    and "length dst' = length dst + unat bytes + 1"
    and "take (length dst) dst' = dst"
    and "dst' ! (length dst + unat bytes) = ucast (k_m p)"
proof -
  let ?d2 = "dst @ replicate (unat bytes) 0 @ [ucast (k_m p)]"
  show add: "add_keys Hash (bytes * 8) (k_m p) (length dst) keys ?d2 = Inr dst'"
    using run unfolding CreateFilter_def Let_def bytes_def bits0_def
    by (simp only: append_assoc)
  have bits: "unat (bytes * 8) \<le> 8 * unat bytes"
    by (simp add: bytes_def unat_filter_bits)
  show len: "length dst' = length dst + unat bytes + 1"
    using add_keys_length [OF add] by simp
  have frame: "dst' ! i = ?d2 ! i" if "i < length dst \<or> length dst + unat bytes \<le> i" for i
    using add_keys_frame [OF add bits that] .
  show "take (length dst) dst' = dst"
  proof (rule nth_equalityI)
    show "length (take (length dst) dst') = length dst" using len by simp
    fix i
    assume "i < length (take (length dst) dst')"
    then have "i < length dst" by simp
    then show "take (length dst) dst' ! i = dst ! i"
      using frame [of i] by (simp add: nth_append)
  qed
  show "dst' ! (length dst + unat bytes) = ucast (k_m p)"
    using frame [of "length dst + unat bytes"] by (simp add: nth_append)
qed

lemma unat_of_nat_64: "n < 18446744073709551616 \<Longrightarrow> unat (of_nat n :: size_t) = n"
  by (simp add: unat_of_nat)

lemma bytes_of_bits:
  fixes x :: size_t
  assumes "unat x < 4611686018427387904"
  shows "unat (((if x < 64 then 64 else x) + 7) div 8) = (max 64 (unat x) + 7) div 8"
proof (cases "x < 64")
  case True
  then have "unat x < 64" by (simp add: word_less_nat_alt)
  with True show ?thesis by (simp add: unat_div)
next
  case False
  then have "64 \<le> unat x" by (simp add: word_less_nat_alt)
  moreover have "unat (x + 7) = unat x + 7"
    using assms by (simp add: unat_word_ariths)
  ultimately show ?thesis using False by (simp add: unat_div max_def)
qed

lemma scast_nonneg:
  fixes w :: c_int
  assumes "0 \<le> sint w"
  shows "(scast w :: size_t) = of_nat (nat (sint w))"
proof -
  have "(scast w :: size_t) = word_of_int (sint w)" by (rule scast_eq)
  also have "\<dots> = of_nat (nat (sint w))" using assms by (rule word_of_int_nat)
  finally show ?thesis .
qed

lemma sint_nat_bound:
  fixes w :: c_int
  assumes "0 \<le> sint w"
  shows "nat (sint w) < 2 ^ 31"
  using sint_lt [of w] assms by simp

lemma filter_bits_nat:
  fixes bits_per_key :: c_int
  assumes "0 \<le> sint bits_per_key" and "n < 2 ^ 31"
  shows "unat (of_nat n * scast bits_per_key :: size_t) = n * nat (sint bits_per_key)"
    and "n * nat (sint bits_per_key) < 4611686018427387904"
proof -
  define b where "b = nat (sint bits_per_key)"
  have b: "b < 2 ^ 31" unfolding b_def using assms(1) by (rule sint_nat_bound)
  have "n * b \<le> 2 ^ 31 * 2 ^ 31"
    using assms(2) b by (intro mult_mono) simp_all
  then have nb: "n * b \<le> 4611686018427387904" by simp
  have "n * b \<noteq> 4611686018427387904"
  proof
    assume "n * b = 4611686018427387904"
    moreover have "n * b < 2 ^ 31 * 2 ^ 31"
      using assms(2) b by (intro mult_strict_mono') simp_all
    ultimately show False by simp
  qed
  with nb show "n * nat (sint bits_per_key) < 4611686018427387904" by (simp add: b_def)
  then have nb': "n * b < 18446744073709551616" by (simp add: b_def)
  have un: "unat (of_nat n :: size_t) = n" using assms(2) by (simp add: unat_of_nat_64)
  have ub: "unat (of_nat b :: size_t) = b" using b by (simp add: unat_of_nat_64)
  have "unat (of_nat n * of_nat b :: size_t) = n * b"
    using nb' by (simp add: unat_word_ariths un ub)
  then show "unat (of_nat n * scast bits_per_key :: size_t) = n * nat (sint bits_per_key)"
    by (simp only: scast_nonneg [OF assms(1)] b_def)
qed

text \<open>
  A negative \<open>bits_per_key\<close> is a huge \<^verbatim>\<open>bits_per_key_\<close>. At \<open>-1\<close> and eight keys the
  filter, where the memory for it is found, has \<open>2 ^ 61 - 1\<close> bytes.
\<close>

lemma CreateFilter_negative_size:
  assumes "CreateFilter Hash \<lparr>bits_per_key_m = - 1, k_m = 1\<rparr> (replicate 8 key) dst = Inr dst'"
  shows "length dst' = length dst + 2305843009213693952"
proof -
  let ?p = "\<lparr>bits_per_key_m = - 1, k_m = 1\<rparr> :: BloomFilterPolicy"
  have bits0: "(- 8 :: size_t) = of_nat (length (replicate 8 key)) * bits_per_key_m ?p"
    by simp
  have bytes: "(2305843009213693951 :: size_t) = ((if (- 8 :: size_t) < 64 then 64 else - 8) + 7) div 8"
    by simp
  from CreateFilter_result(2) [OF assms bits0 bytes] show ?thesis by simp
qed

text \<open>
  For a \<open>bits_per_key\<close> that is not negative nothing wraps around: \<open>CreateFilter\<close> returns,
  and the size of the filter is the one computed in the natural numbers.
\<close>

lemma CreateFilter_nonneg:
  fixes bits_per_key :: c_int
  assumes "0 \<le> sint bits_per_key" and "length keys < 2 ^ 31"
    and p: "bits_per_key_m p = scast bits_per_key"
  shows "\<exists>f. CreateFilter Hash p keys dst = Inr (dst @ f)
           \<and> length f = (max 64 (length keys * nat (sint bits_per_key)) + 7) div 8 + 1
           \<and> last f = ucast (k_m p)"
proof -
  define bits0 where "bits0 = (of_nat (length keys) * scast bits_per_key :: size_t)"
  define bytes where "bytes = ((if bits0 < 64 then 64 else bits0) + 7) div 8"
  have bits0_eq: "bits0 = of_nat (length keys) * bits_per_key_m p" by (simp add: bits0_def p)
  have u0: "unat bits0 = length keys * nat (sint bits_per_key)"
    unfolding bits0_def by (rule filter_bits_nat(1) [OF assms(1,2)])
  have "unat bits0 < 4611686018427387904"
    unfolding u0 by (rule filter_bits_nat(2) [OF assms(1,2)])
  from bytes_of_bits [OF this]
  have B: "unat bytes = (max 64 (length keys * nat (sint bits_per_key)) + 7) div 8"
    by (simp only: bytes_def u0)
  then have "8 \<le> unat bytes" by simp
  moreover have "unat (bytes * 8) = 8 * unat bytes"
    unfolding bytes_def by (rule unat_filter_bits)
  ultimately have "unat (bytes * 8) \<noteq> 0" by simp
  then have nz: "bytes * 8 \<noteq> 0" by (simp add: unat_eq_0)
  from add_keys_total [OF nz] obtain dst' where
    "add_keys Hash (bytes * 8) (k_m p) (length dst) keys
       ((dst @ replicate (unat bytes) 0) @ [ucast (k_m p)]) = Inr dst'"
    by blast
  then have run: "CreateFilter Hash p keys dst = Inr dst'"
    unfolding CreateFilter_def Let_def bytes_def bits0_eq by simp
  note res = CreateFilter_result [OF run bits0_eq bytes_def]
  define f where "f = drop (length dst) dst'"
  have split: "dst' = dst @ f"
    using res(3) append_take_drop_id [of "length dst" dst'] by (simp add: f_def)
  have len_f: "length f = unat bytes + 1" using res(2) by (simp add: f_def)
  have "last f = f ! (length f - 1)" using len_f by (intro last_conv_nth) auto
  also have "\<dots> = dst' ! (length dst + unat bytes)" using res(2) by (simp add: f_def len_f)
  also have "\<dots> = ucast (k_m p)" using res(4) by simp
  finally have "last f = ucast (k_m p)" .
  with run split len_f B show ?thesis by auto
qed

subsection \<open>The constructor's number of probes\<close>

text \<open>
  The rounded product is at least 31 from 45 bits per key on, where the clamp gives 30;
  below, the 45 values are computed. So the rounding of the product never shows in \<open>k_\<close>.
\<close>

text \<open>
  The rounding shows at \<open>bits_per_key = 100\<close>: the exact product is below 69 and the double
  is \<open>69.0\<close>.
\<close>

lemma product_rounds_at_100:
  "100 * double_0_69 < 69 * 2 ^ 53 \<and> round_to_double (100 * double_0_69) = 69 * 2 ^ 53"
  by (simp add: round_to_double_def double_0_69_def bit_length.simps Let_def)

lemma bit_length_le: "N < 2 ^ k \<Longrightarrow> bit_length N \<le> k"
proof (induction k arbitrary: N)
  case 0
  then show ?case by (simp add: bit_length.simps)
next
  case (Suc k)
  show ?case
  proof (cases "N = 0")
    case True
    then show ?thesis by (simp add: bit_length.simps)
  next
    case False
    from Suc.prems have "N div 2 < 2 ^ k" by simp
    from Suc.IH [OF this] False show ?thesis
      by (subst bit_length.simps) simp
  qed
qed

lemma round_to_double_lower:
  assumes "T \<le> N" and "2 ^ (bit_length N - 53) dvd T"
  shows "T \<le> round_to_double N"
proof -
  let ?e = "bit_length N - 53"
  from assms(2) obtain c where T: "T = 2 ^ ?e * c" by (auto simp: dvd_def)
  with assms(1) have "c \<le> N div 2 ^ ?e"
    by (metis div_le_mono nonzero_mult_div_cancel_left power_not_zero zero_neq_numeral)
  then have "T \<le> (N div 2 ^ ?e) * 2 ^ ?e" using T by simp
  then show ?thesis
    by (auto simp: round_to_double_def Let_def intro: order_trans)
qed

lemma round_to_double_upper: "round_to_double N \<le> N + 2 ^ (bit_length N - 53)"
proof -
  let ?e = "bit_length N - 53"
  have le: "(N div 2 ^ ?e) * 2 ^ ?e \<le> N" by simp
  have "round_to_double N = (N div 2 ^ ?e) * 2 ^ ?e
        \<or> round_to_double N = (N div 2 ^ ?e) * 2 ^ ?e + 2 ^ ?e"
    by (simp add: round_to_double_def Let_def)
  with le show ?thesis by (auto intro: trans_le_add1)
qed

lemma times_0_69_bound:
  assumes "b < 2 ^ 31"
  shows "round_to_double (b * double_0_69) div 2 ^ 53 < 2 ^ 64"
proof -
  let ?N = "b * double_0_69"
  have "?N < 2 ^ 31 * 2 ^ 53"
    using assms by (intro mult_strict_mono) (simp_all add: double_0_69_def)
  then have N: "?N < 2 ^ 84" by simp
  then have "bit_length ?N - 53 \<le> 31" using bit_length_le [OF N] by simp
  then have "(2::nat) ^ (bit_length ?N - 53) \<le> 2 ^ 31" by (intro power_increasing) simp_all
  with round_to_double_upper [of ?N] N have "round_to_double ?N < 2 ^ 84 + 2 ^ 31" by linarith
  then have "round_to_double ?N < 2 ^ 64 * 2 ^ 53" by simp
  then show ?thesis by (simp add: less_mult_imp_div_less)
qed

lemma times_0_69_large:
  assumes "45 \<le> b" and "b < 2 ^ 31"
  shows "31 \<le> round_to_double (b * double_0_69) div 2 ^ 53"
proof -
  let ?N = "b * double_0_69"
  have "?N < 2 ^ 31 * 2 ^ 53"
    using assms by (intro mult_strict_mono) (simp_all add: double_0_69_def)
  then have N: "?N < 2 ^ 84" by simp
  then have e: "bit_length ?N - 53 \<le> 53" using bit_length_le [OF N] by simp
  have "45 * double_0_69 \<le> ?N" using assms(1) by simp
  then have T: "31 * 2 ^ 53 \<le> ?N" by (simp add: double_0_69_def)
  have "(2::nat) ^ (bit_length ?N - 53) dvd 2 ^ 53" using e by (rule le_imp_power_dvd)
  then have "(2::nat) ^ (bit_length ?N - 53) dvd 31 * 2 ^ 53" by (rule dvd_mult)
  from round_to_double_lower [OF T this] have "31 * 2 ^ 53 \<le> round_to_double ?N" .
  then show ?thesis by (simp add: less_eq_div_iff_mult_less_eq)
qed

lemma times_0_69_small:
  assumes "b < 45"
  shows "max 1 (min 30 (round_to_double (b * double_0_69) div 2 ^ 53)) = max 1 (min 30 (b * 69 div 100))"
proof -
  from assms have "b = 0 \<or> b = 1 \<or> b = 2 \<or> b = 3 \<or> b = 4 \<or> b = 5 \<or> b = 6 \<or> b = 7 \<or> b = 8 \<or> b = 9 \<or> b = 10 \<or> b = 11 \<or> b = 12 \<or> b = 13 \<or> b = 14 \<or> b = 15 \<or> b = 16 \<or> b = 17 \<or> b = 18 \<or> b = 19 \<or> b = 20 \<or> b = 21 \<or> b = 22 \<or> b = 23 \<or> b = 24 \<or> b = 25 \<or> b = 26 \<or> b = 27 \<or> b = 28 \<or> b = 29 \<or> b = 30 \<or> b = 31 \<or> b = 32 \<or> b = 33 \<or> b = 34 \<or> b = 35 \<or> b = 36 \<or> b = 37 \<or> b = 38 \<or> b = 39 \<or> b = 40 \<or> b = 41 \<or> b = 42 \<or> b = 43 \<or> b = 44"
    by arith
  then show ?thesis
    by (elim disjE)
      (simp_all add: round_to_double_def double_0_69_def bit_length.simps Let_def)
qed

lemma times_0_69_clamped:
  assumes "b < 2 ^ 31"
  shows "max 1 (min 30 (round_to_double (b * double_0_69) div 2 ^ 53)) =
         max 1 (min 30 (b * 69 div 100))"
proof (cases "b < 45")
  case True
  then show ?thesis by (rule times_0_69_small)
next
  case False
  then have b: "45 \<le> b" by simp
  from times_0_69_large [OF b assms] have "min 30 (round_to_double (b * double_0_69) div 2 ^ 53) = 30"
    by simp
  moreover from b have "45 * 69 div 100 \<le> b * 69 div 100"
    by (intro div_le_mono mult_le_mono1)
  then have "min 30 (b * 69 div 100) = 30" by simp
  ultimately show ?thesis by simp
qed

lemma clamp_word:
  assumes "t < 18446744073709551616"
  shows "unat (let k0 = (of_nat t :: size_t);
                   k1 = (if k0 < 1 then 1 else k0)
               in if k1 > 30 then 30 else k1) = max 1 (min 30 t)"
  using assms by (auto simp: Let_def word_less_nat_alt unat_of_nat_64)

lemma NewBloomFilterPolicy_nonneg:
  assumes "0 \<le> sint bits_per_key"
  shows "\<exists>k. NewBloomFilterPolicy bits_per_key
                = Inr \<lparr>bits_per_key_m = scast bits_per_key, k_m = k\<rparr>
             \<and> unat k = max 1 (min 30 (nat (sint bits_per_key) * 69 div 100))"
proof -
  define b where "b = nat (sint bits_per_key)"
  define R where "R = round_to_double (b * double_0_69) div 2 ^ 53"
  have b: "b < 2 ^ 31" unfolding b_def using assms by (rule sint_nat_bound)
  have R: "R < 18446744073709551616" using times_0_69_bound [OF b] by (simp add: R_def)
  have zero: "round_to_double 0 = 0" by (simp add: round_to_double_def)
  have prod: "times_0_69 (sint bits_per_key) = int (round_to_double (b * double_0_69))"
    using assms by (cases "sint bits_per_key = 0") (simp_all add: times_0_69_def b_def zero)
  have cast: "static_cast_size_t (int (round_to_double (b * double_0_69))) = Inr (of_nat R)"
  proof -
    have "sgn (int (round_to_double (b * double_0_69))) * (int (round_to_double (b * double_0_69)) div 2 ^ 53)
          = int R"
      by (cases "round_to_double (b * double_0_69) = 0") (simp_all add: R_def zdiv_int)
    then show ?thesis using R by (simp add: static_cast_size_t_def Let_def)
  qed
  have clamp: "max 1 (min 30 R) = max 1 (min 30 (b * 69 div 100))"
    unfolding R_def by (rule times_0_69_clamped [OF b])
  show ?thesis
    using clamp_word [OF R] clamp
    by (simp add: NewBloomFilterPolicy_def prod cast b_def [symmetric] Let_def)
qed

lemma floor_times_0_69: "\<lfloor>real_of_int i * 0.69\<rfloor> = i * 69 div 100"
proof -
  have "real_of_int i * 0.69 = real_of_int (i * 69) / real_of_int 100" by simp
  then show ?thesis by (simp only: floor_divide_of_int_eq)
qed

lemma clamp_int:
  assumes "0 \<le> i"
  shows "int (max 1 (min 30 (nat i * 69 div 100))) = max 1 (min 30 (i * 69 div 100))"
proof -
  have "int (nat i * 69 div 100) = i * 69 div 100"
    using assms by (simp add: zdiv_int)
  then show ?thesis by (simp only: of_nat_max of_nat_min of_nat_1 of_nat_numeral)
qed

subsection \<open>Evaluation on numerals\<close>

lemma set_probes_numeral:
  "set_probes bits delta init_size (numeral n) h dst =
     (if bits = 0 then Inl DivideByZero
      else let bitpos = bitpos_of h bits;
               i = init_size + unat (bitpos div 8)
           in set_probes bits delta init_size (pred_numeral n) (h + delta)
                (dst[i := dst ! i OR bit_mask bitpos]))"
  by (simp add: numeral_eq_Suc)

lemma test_probes_numeral:
  "test_probes bits delta (numeral n) h array =
     (if bits = 0 then Inl DivideByZero
      else let bitpos = bitpos_of h bits
           in if array ! unat (bitpos div 8) AND bit_mask bitpos = 0 then Inr False
              else test_probes bits delta (pred_numeral n) (h + delta) array)"
  by (simp add: numeral_eq_Suc)

lemma replicate_numeral: "replicate (numeral n) x = x # replicate (pred_numeral n) x"
  by (simp add: numeral_eq_Suc)

lemma list_update_numeral: "(x # xs)[numeral n := y] = x # xs[pred_numeral n := y]"
  by (simp add: numeral_eq_Suc)

lemma sample_policy: "NewBloomFilterPolicy 10 = Inr \<lparr>bits_per_key_m = 10, k_m = 6\<rparr>"
  by (simp add: NewBloomFilterPolicy_def static_cast_size_t_def times_0_69_def
      round_to_double_def double_0_69_def bit_length.simps Let_def)

lemma sample_filter:
  "CreateFilter sample_hash \<lparr>bits_per_key_m = 10, k_m = 6\<rparr> [[1], [2, 3]] [9]
     = Inr [9, 51, 0, 24, 0, 12, 0, 102, 0, 6]"
  by (simp add: CreateFilter_def BloomHash_def sample_hash_def rotate_delta_def bitpos_of_def
      bit_mask_def Let_def set_probes_numeral replicate_numeral list_update_numeral)

section \<open>The claims about the bloom filter\<close>

text \<open>
  Claim C1. A filter has no false negatives: when a policy made by the constructor, from
  any \<open>bits_per_key\<close>, has produced a filter from a list of keys with \<open>CreateFilter\<close>
  (appended to any \<open>dst\<close>), then \<open>KeyMayMatch\<close> answers true on that filter for every key
  of the list. (By \<open>NewBloomFilterPolicy_nonneg\<close> and \<open>CreateFilter_nonneg\<close> both return
  for every \<open>bits_per_key\<close> that is not negative.)
\<close>

theorem bloom_no_false_negatives:
  assumes policy: "NewBloomFilterPolicy bits_per_key = Inr p"
    and run: "CreateFilter Hash p keys dst = Inr dst'"
    and key: "key \<in> set keys"
  shows "KeyMayMatch Hash p key (drop (length dst) dst') = Inr True"
proof -
  define bits0 where "bits0 = of_nat (length keys) * bits_per_key_m p"
  define bytes where "bytes = ((if bits0 < 64 then 64 else bits0) + 7) div 8"
  define f where "f = drop (length dst) dst'"
  let ?h = "BloomHash Hash key"
  note res = CreateFilter_result [OF run bits0_def bytes_def]
  have k: "1 \<le> k_m p" "k_m p \<le> 30" using policy_k_range [OF policy] by simp_all
  then have k0: "k_m p \<noteq> 0" by auto
  have bits_eq: "unat (bytes * 8) = 8 * unat bytes"
    by (simp add: bytes_def unat_filter_bits)
  have nz: "bytes * 8 \<noteq> 0"
  proof
    assume "bytes * 8 = 0"
    moreover have "keys \<noteq> []" using key by auto
    ultimately show False
      using res(1) add_keys_zero_bits [of keys "k_m p" Hash] k0 by simp
  qed
  then have B1: "1 \<le> unat bytes" using bits_eq
    by (metis One_nat_def Suc_leI mult_0_right not_gr_zero unat_eq_0)
  have B2: "unat bytes * 8 < 18446744073709551616"
    using filter_bytes_bound by (simp add: bytes_def)
  have len_f: "length f = unat bytes + 1" using res(2) by (simp add: f_def)
  have len_w: "(of_nat (length f) :: size_t) = bytes + 1" by (simp add: len_f)
  have not_short: "\<not> (of_nat (length f) :: size_t) < 2"
  proof -
    have "unat (bytes + 1) = unat bytes + 1"
      using B2 by (simp add: unat_word_ariths)
    with B1 show ?thesis by (simp add: len_w word_less_nat_alt)
  qed
  have last_f: "f ! (length f - Suc 0) = ucast (k_m p)"
    using res(2,4) by (simp add: f_def len_f)
  have hits: "test_probes (bytes * 8) (rotate_delta ?h) (unat (k_m p)) ?h f = Inr True"
    unfolding f_def
    by (rule add_keys_hits [OF res(1) _ _ key, of "unat bytes"]) (simp_all add: bits_eq)
  show ?thesis
    using not_short hits k(2)
    by (simp add: KeyMayMatch_def Let_def f_def [symmetric] len_w last_f char_of_k not_less)
qed

theorem bloom_no_false_negatives_witness:
  "NewBloomFilterPolicy 10 = Inr \<lparr>bits_per_key_m = 10, k_m = 6\<rparr>
   \<and> CreateFilter sample_hash \<lparr>bits_per_key_m = 10, k_m = 6\<rparr> [[1], [2, 3]] [9]
       = Inr [9, 51, 0, 24, 0, 12, 0, 102, 0, 6]
   \<and> [2, 3] \<in> set [[1], [2, 3 :: byte]]
   \<and> KeyMayMatch sample_hash \<lparr>bits_per_key_m = 10, k_m = 6\<rparr> [2, 3]
         (drop (length [9 :: byte]) [9, 51, 0, 24, 0, 12, 0, 102, 0, 6]) = Inr True"
proof -
  have c: "[2, 3] \<in> set [[1], [2, 3 :: byte]]"
    by simp
  show ?thesis
    by (intro conjI sample_policy sample_filter c
        bloom_no_false_negatives [OF sample_policy sample_filter c])
qed

text \<open>
  Claim C10, as amended. For a \<open>bits_per_key\<close> that is not negative and \<open>n\<close> keys (\<open>n\<close> an
  \<^verbatim>\<open>int\<close>), the constructor yields a policy and \<open>CreateFilter\<close> returns \<open>dst\<close> with \<open>bytes + 1\<close>
  characters appended, where \<open>bytes = ceil(max(64, n * bits_per_key) / 8)\<close>; the first
  \<open>init_size\<close> bytes are those of \<open>dst\<close>, the last appended byte is the number of probes
  \<open>k\<close>, and \<open>k\<close> is \<open>floor(bits_per_key * 0.69)\<close> clamped to the range from 1 to 30.
\<close>

theorem CreateFilter_appends:
  assumes "0 \<le> sint bits_per_key" and "length keys < 2 ^ 31"
  shows "\<exists>p f. NewBloomFilterPolicy bits_per_key = Inr p
           \<and> CreateFilter Hash p keys dst = Inr (dst @ f)
           \<and> length f = (max 64 (length keys * nat (sint bits_per_key)) + 7) div 8 + 1
           \<and> unat (last f) = unat (k_m p)
           \<and> int (unat (k_m p)) = max 1 (min 30 \<lfloor>real_of_int (sint bits_per_key) * 0.69\<rfloor>)"
proof -
  from NewBloomFilterPolicy_nonneg [OF assms(1)] obtain k where
    policy: "NewBloomFilterPolicy bits_per_key = Inr \<lparr>bits_per_key_m = scast bits_per_key, k_m = k\<rparr>"
    and k: "unat k = max 1 (min 30 (nat (sint bits_per_key) * 69 div 100))"
    by blast
  let ?p = "\<lparr>bits_per_key_m = scast bits_per_key, k_m = k\<rparr>"
  have "bits_per_key_m ?p = scast bits_per_key" by simp
  from CreateFilter_nonneg [OF assms this] obtain f where
    run: "CreateFilter Hash ?p keys dst = Inr (dst @ f)"
    and len: "length f = (max 64 (length keys * nat (sint bits_per_key)) + 7) div 8 + 1"
    and last_f: "last f = ucast (k_m ?p)"
    by blast
  have "unat k < 2 ^ 8" using k by simp
  then have "unat (ucast k :: byte) = unat k"
    by (simp add: unsigned_ucast_eq take_bit_nat_eq_self)
  with last_f have last_k: "unat (last f) = unat k" by simp
  have "int (unat k) = max 1 (min 30 (sint bits_per_key * 69 div 100))"
    unfolding k by (rule clamp_int [OF assms(1)])
  then have kk: "int (unat k) = max 1 (min 30 \<lfloor>real_of_int (sint bits_per_key) * 0.69\<rfloor>)"
    by (simp only: floor_times_0_69)
  have "NewBloomFilterPolicy bits_per_key = Inr ?p
           \<and> CreateFilter Hash ?p keys dst = Inr (dst @ f)
           \<and> length f = (max 64 (length keys * nat (sint bits_per_key)) + 7) div 8 + 1
           \<and> unat (last f) = unat (k_m ?p)
           \<and> int (unat (k_m ?p)) = max 1 (min 30 \<lfloor>real_of_int (sint bits_per_key) * 0.69\<rfloor>)"
    using policy run len last_k kk by (simp only: BloomFilterPolicy.simps simp_thms)
  then show ?thesis by blast
qed

theorem CreateFilter_appends_witness:
  "0 \<le> sint (10 :: c_int) \<and> length [[1], [2, 3 :: byte]] < 2 ^ 31
   \<and> NewBloomFilterPolicy 10 = Inr \<lparr>bits_per_key_m = 10, k_m = 6\<rparr>
   \<and> CreateFilter sample_hash \<lparr>bits_per_key_m = 10, k_m = 6\<rparr> [[1], [2, 3]] [9]
       = Inr ([9] @ [51, 0, 24, 0, 12, 0, 102, 0, 6])
   \<and> length [51, 0, 24, 0, 12, 0, 102, 0, 6 :: byte]
       = (max 64 (length [[1], [2, 3 :: byte]] * nat (sint (10 :: c_int))) + 7) div 8 + 1
   \<and> unat (last [51, 0, 24, 0, 12, 0, 102, 0, 6 :: byte])
       = unat (k_m \<lparr>bits_per_key_m = 10, k_m = 6\<rparr>)
   \<and> int (unat (k_m \<lparr>bits_per_key_m = 10, k_m = 6\<rparr>))
       = max 1 (min 30 \<lfloor>real_of_int (sint (10 :: c_int)) * 0.69\<rfloor>)"
proof -
  have a: "0 \<le> sint (10 :: c_int)" by simp
  have b: "length [[1], [2, 3 :: byte]] < 2 ^ 31" by simp
  from CreateFilter_appends [OF a b, of sample_hash "[9]"] obtain p f where
    p: "NewBloomFilterPolicy 10 = Inr p"
    and f: "CreateFilter sample_hash p [[1], [2, 3]] [9] = Inr ([9] @ f)"
    and rest: "length f = (max 64 (length [[1], [2, 3 :: byte]] * nat (sint (10 :: c_int))) + 7) div 8 + 1"
      "unat (last f) = unat (k_m p)"
      "int (unat (k_m p)) = max 1 (min 30 \<lfloor>real_of_int (sint (10 :: c_int)) * 0.69\<rfloor>)"
    by blast
  from p sample_policy have p_eq: "p = \<lparr>bits_per_key_m = 10, k_m = 6\<rparr>" by simp
  from f sample_filter have f_eq: "f = [51, 0, 24, 0, 12, 0, 102, 0, 6]" by (simp add: p_eq)
  from a b p f rest show ?thesis unfolding p_eq f_eq by blast
qed

text \<open>
  The claim as stated, for every \<open>bits_per_key\<close>, fails at \<open>-1\<close>: the member
  \<^verbatim>\<open>bits_per_key_\<close> is then \<open>2 ^ 64 - 1\<close>, and for one key \<open>bits + 7\<close> wraps around to 6, so
  that the filter has no bytes and \<^verbatim>\<open>h % bits\<close> divides by zero, where the claim has 9
  characters appended. (With more keys the size is not the claimed one either, see
  \<open>CreateFilter_negative_size\<close>; from \<open>-2\<close> down the constructor's conversion is
  undefined.)
\<close>

theorem CreateFilter_appends_counterexample:
  "NewBloomFilterPolicy (- 1) = Inr \<lparr>bits_per_key_m = - 1, k_m = 1\<rparr>
   \<and> CreateFilter sample_hash \<lparr>bits_per_key_m = - 1, k_m = 1\<rparr> [[]] [] = Inl DivideByZero"
  by (simp add: NewBloomFilterPolicy_def static_cast_size_t_def times_0_69_def
      round_to_double_def double_0_69_def bit_length.simps Let_def CreateFilter_def)

section \<open>The claims about \<open>BuildTable\<close>\<close>

lemma add_entries_eq:
  "add_entries es meta calls =
     ((if es = [] then meta else meta\<lparr>largest := fst (last es)\<rparr>),
      calls @ map (\<lambda>(key, val). Builder_Add key val) es)"
  by (induction es arbitrary: meta calls) auto

lemma sample_file_name: "sample_TableFileName ''db'' 3 = ''db/111.ldb''"
  by (simp add: sample_TableFileName_def replicate_numeral)

lemma sample_build_ok:
  "BuildTable sample_TableFileName sample_answers ''db'' sample_iter sample_meta =
     Inr (OK,
          \<lparr>allowed_seeks = 0, number = 3, file_size = 120, smallest = [1], largest = [2]\<rparr>,
          [Env_NewWritableFile ''db/111.ldb'', Builder_New, Builder_Add [1] [10],
           Builder_Add [2] [20], Builder_Finish, File_Sync, File_Close,
           Cache_NewIterator 3 120])"
  by (simp add: BuildTable_def check_and_keep_def sample_file_name sample_answers_def
      sample_iter_def sample_meta_def ok_def Let_def)

lemma sample_facts:
  "entries sample_iter \<noteq> []" "ok (new_writable_file sample_answers)"
  "ok (finish sample_answers)" "0 < builder_file_size sample_answers"
  "ok (sync sample_answers)" "ok (close sample_answers)"
  by (simp_all add: sample_iter_def sample_answers_def ok_def)

text \<open>
  Claim C2. For an input iterator that yields at least one entry, a call of \<open>BuildTable\<close>
  that returns OK has set \<open>smallest\<close> to the first key yielded, \<open>largest\<close> to the last key
  yielded and \<open>file_size\<close> to the builder's file size, which is greater than zero. (For
  an iterator in ascending order these are its least and greatest keys; the order plays
  no part.)
\<close>

theorem BuildTable_success_meta:
  assumes "BuildTable TableFileName env dbname iter meta = Inr (s, meta', calls)"
    and "ok s" and "entries iter \<noteq> []"
  shows "smallest meta' = fst (hd (entries iter)) \<and> largest meta' = fst (last (entries iter))
         \<and> file_size meta' = builder_file_size env \<and> 0 < file_size meta'"
  using assms
  by (auto simp: BuildTable_def Let_def add_entries_eq check_and_keep_def ok_def
      split: if_splits)

theorem BuildTable_success_meta_witness:
  "BuildTable sample_TableFileName sample_answers ''db'' sample_iter sample_meta =
     Inr (OK,
          \<lparr>allowed_seeks = 0, number = 3, file_size = 120, smallest = [1], largest = [2]\<rparr>,
          [Env_NewWritableFile ''db/111.ldb'', Builder_New, Builder_Add [1] [10],
           Builder_Add [2] [20], Builder_Finish, File_Sync, File_Close,
           Cache_NewIterator 3 120])
   \<and> ok OK \<and> entries sample_iter \<noteq> []
   \<and> smallest \<lparr>allowed_seeks = 0, number = 3, file_size = 120, smallest = [1], largest = [2]\<rparr>
       = fst (hd (entries sample_iter))
   \<and> largest \<lparr>allowed_seeks = 0, number = 3, file_size = 120, smallest = [1], largest = [2]\<rparr>
       = fst (last (entries sample_iter))
   \<and> file_size \<lparr>allowed_seeks = 0, number = 3, file_size = 120, smallest = [1], largest = [2]\<rparr>
       = builder_file_size sample_answers
   \<and> 0 < file_size \<lparr>allowed_seeks = 0, number = 3, file_size = 120, smallest = [1], largest = [2]\<rparr>"
proof -
  have a: "ok OK" by (simp add: ok_def)
  have b: "entries sample_iter \<noteq> []" by (simp add: sample_iter_def)
  show ?thesis
    using sample_build_ok a b BuildTable_success_meta [OF sample_build_ok a b]
    by (intro conjI) blast+
qed

text \<open>
  Claim C3, as amended. Whenever \<open>BuildTable\<close> returns a status that is not OK, either
  \<^verbatim>\<open>NewWritableFile\<close> failed, and its status is returned at once with nothing deleted, or
  the failure is one of the builder's \<open>Finish\<close>, of \<open>Sync\<close> or \<open>Close\<close>, of the table
  cache's validation or of the input iterator: then the last call before the return
  deletes the file named by the file number in \<open>meta\<close>, and the returned status is that
  failure (the input iterator's status when that is not OK, the first of the other
  failures otherwise).
\<close>

theorem BuildTable_failure_deletes:
  assumes "BuildTable TableFileName env dbname iter meta = Inr (s, meta', calls)"
    and "\<not> ok s"
  shows "number meta' = number meta
         \<and> (if entries iter \<noteq> [] \<and> \<not> ok (new_writable_file env)
            then s = new_writable_file env
                 \<and> calls = [Env_NewWritableFile (TableFileName dbname (number meta))]
            else calls \<noteq> []
                 \<and> last calls = Env_DeleteFile (TableFileName dbname (number meta))
                 \<and> s = (if \<not> ok (status iter) then status iter
                        else if \<not> ok (finish env) then finish env
                        else if \<not> ok (sync env) then sync env
                        else if \<not> ok (close env) then close env
                        else cache_iterator_status env))"
  using assms
  by (auto simp: BuildTable_def Let_def add_entries_eq check_and_keep_def ok_def
      split: if_splits)

theorem BuildTable_failure_deletes_witness:
  "BuildTable sample_TableFileName (sample_answers\<lparr>finish := Corruption ''block''\<rparr>)
     ''db'' sample_iter sample_meta =
     Inr (Corruption ''block'',
          \<lparr>allowed_seeks = 0, number = 3, file_size = 0, smallest = [1], largest = [2]\<rparr>,
          [Env_NewWritableFile ''db/111.ldb'', Builder_New, Builder_Add [1] [10],
           Builder_Add [2] [20], Builder_Finish, Env_DeleteFile ''db/111.ldb''])
   \<and> \<not> ok (Corruption ''block'')
   \<and> last [Env_NewWritableFile ''db/111.ldb'', Builder_New, Builder_Add [1] [10],
            Builder_Add [2] [20], Builder_Finish, Env_DeleteFile ''db/111.ldb'']
       = Env_DeleteFile (sample_TableFileName ''db'' (number sample_meta))
   \<and> Corruption ''block'' = finish (sample_answers\<lparr>finish := Corruption ''block''\<rparr>)"
proof -
  let ?env = "sample_answers\<lparr>finish := Corruption ''block''\<rparr>"
  have a: "BuildTable sample_TableFileName ?env ''db'' sample_iter sample_meta =
     Inr (Corruption ''block'',
          \<lparr>allowed_seeks = 0, number = 3, file_size = 0, smallest = [1], largest = [2]\<rparr>,
          [Env_NewWritableFile ''db/111.ldb'', Builder_New, Builder_Add [1] [10],
           Builder_Add [2] [20], Builder_Finish, Env_DeleteFile ''db/111.ldb''])"
    by (simp add: BuildTable_def check_and_keep_def sample_file_name sample_answers_def
        sample_iter_def sample_meta_def ok_def Let_def)
  have b: "\<not> ok (Corruption ''block'')" by (simp add: ok_def)
  from BuildTable_failure_deletes [OF a b] a b show ?thesis
    by (simp add: sample_iter_def sample_answers_def ok_def)
qed

text \<open>
  The claim as stated, for every return with a status that is not OK, fails when
  \<^verbatim>\<open>NewWritableFile\<close> fails: \<open>BuildTable\<close> returns that status at once, and no file is
  deleted.
\<close>

theorem BuildTable_failure_deletes_counterexample:
  "BuildTable sample_TableFileName (sample_answers\<lparr>new_writable_file := IOError ''create''\<rparr>)
     ''db'' sample_iter sample_meta =
     Inr (IOError ''create'', sample_meta\<lparr>file_size := 0\<rparr>, [Env_NewWritableFile ''db/111.ldb''])
   \<and> \<not> ok (IOError ''create'')"
  by (simp add: BuildTable_def sample_file_name sample_answers_def sample_iter_def
      sample_meta_def ok_def Let_def)

text \<open>
  Claim C4, as amended. When the table has been written (the builder finishing without a
  failure and with a file size above zero, which the code asserts), synced and closed,
  \<open>BuildTable\<close> opens an iterator on it through the table cache, after \<open>Finish\<close>, \<open>Sync\<close>
  and \<open>Close\<close> and with the file number and size of \<open>meta\<close>; the status of that iterator
  is the status \<open>BuildTable\<close> returns unless the input iterator's status is not OK, which
  is then returned instead. Either way a table whose iterator has a status that is not OK
  makes the build fail, and the file is deleted.
\<close>

theorem BuildTable_validates:
  fixes TableFileName :: "string \<Rightarrow> uint64_t \<Rightarrow> string" and env :: Answers and dbname :: string
    and iter :: Iterator and meta :: FileMetaData
  assumes "entries iter \<noteq> []" and "ok (new_writable_file env)" and "ok (finish env)"
    and "0 < builder_file_size env" and "ok (sync env)" and "ok (close env)"
  defines "fname \<equiv> TableFileName dbname (number meta)"
  defines "s \<equiv> (if ok (status iter) then cache_iterator_status env else status iter)"
  shows "BuildTable TableFileName env dbname iter meta =
           Inr (s,
                meta\<lparr>smallest := fst (hd (entries iter)), largest := fst (last (entries iter)),
                     file_size := builder_file_size env\<rparr>,
                [Env_NewWritableFile fname, Builder_New]
                @ map (\<lambda>(key, val). Builder_Add key val) (entries iter)
                @ [Builder_Finish, File_Sync, File_Close,
                   Cache_NewIterator (number meta) (builder_file_size env)]
                @ (if ok s then [] else [Env_DeleteFile fname]))
         \<and> (\<not> ok (cache_iterator_status env) \<longrightarrow> \<not> ok s)"
  using assms(1-6) unfolding fname_def s_def
  by (auto simp: BuildTable_def Let_def add_entries_eq check_and_keep_def)

theorem BuildTable_validates_witness:
  "entries sample_iter \<noteq> [] \<and> ok (new_writable_file sample_answers)
   \<and> ok (finish sample_answers) \<and> 0 < builder_file_size sample_answers
   \<and> ok (sync sample_answers) \<and> ok (close sample_answers)
   \<and> BuildTable sample_TableFileName (sample_answers\<lparr>cache_iterator_status := Corruption ''footer''\<rparr>)
        ''db'' sample_iter sample_meta =
        Inr (Corruption ''footer'',
             \<lparr>allowed_seeks = 0, number = 3, file_size = 120, smallest = [1], largest = [2]\<rparr>,
             [Env_NewWritableFile ''db/111.ldb'', Builder_New, Builder_Add [1] [10],
              Builder_Add [2] [20], Builder_Finish, File_Sync, File_Close,
              Cache_NewIterator 3 120, Env_DeleteFile ''db/111.ldb''])"
proof -
  let ?env = "sample_answers\<lparr>cache_iterator_status := Corruption ''footer''\<rparr>"
  have h: "entries sample_iter \<noteq> []" "ok (new_writable_file ?env)" "ok (finish ?env)"
    "0 < builder_file_size ?env" "ok (sync ?env)" "ok (close ?env)"
    using sample_facts by simp_all
  from BuildTable_validates [OF h, of sample_TableFileName "''db''" sample_meta]
  have "BuildTable sample_TableFileName ?env ''db'' sample_iter sample_meta =
        Inr (Corruption ''footer'',
             \<lparr>allowed_seeks = 0, number = 3, file_size = 120, smallest = [1], largest = [2]\<rparr>,
             [Env_NewWritableFile ''db/111.ldb'', Builder_New, Builder_Add [1] [10],
              Builder_Add [2] [20], Builder_Finish, File_Sync, File_Close,
              Cache_NewIterator 3 120, Env_DeleteFile ''db/111.ldb''])"
    by (simp add: sample_file_name sample_answers_def sample_iter_def sample_meta_def ok_def)
  with sample_facts show ?thesis by simp
qed

text \<open>
  The claim as stated has the status of the validating iterator returned in every case;
  with an input iterator that ended on an error, the input's status is returned.
\<close>

theorem BuildTable_validates_counterexample:
  "BuildTable sample_TableFileName (sample_answers\<lparr>cache_iterator_status := IOError ''open''\<rparr>)
     ''db'' (sample_iter\<lparr>status := Corruption ''input''\<rparr>) sample_meta =
     Inr (Corruption ''input'',
          \<lparr>allowed_seeks = 0, number = 3, file_size = 120, smallest = [1], largest = [2]\<rparr>,
          [Env_NewWritableFile ''db/111.ldb'', Builder_New, Builder_Add [1] [10],
           Builder_Add [2] [20], Builder_Finish, File_Sync, File_Close,
           Cache_NewIterator 3 120, Env_DeleteFile ''db/111.ldb''])
   \<and> Corruption ''input''
       \<noteq> cache_iterator_status (sample_answers\<lparr>cache_iterator_status := IOError ''open''\<rparr>)"
  by (simp add: BuildTable_def check_and_keep_def sample_file_name sample_answers_def
      sample_iter_def sample_meta_def ok_def Let_def)

text \<open>
  Claim C5, as amended. When the builder has finished without a failure (and with a file
  size above zero, which the code asserts), \<open>BuildTable\<close> calls \<open>Sync\<close> before \<open>Close\<close>,
  and \<open>Close\<close> only when \<open>Sync\<close> returned OK. When \<open>Sync\<close> fails, or \<open>Close\<close> after it,
  the file is deleted and \<open>BuildTable\<close> returns that failure unless the input iterator's
  status is not OK, which is then returned instead.
\<close>

theorem BuildTable_sync_then_close:
  fixes TableFileName :: "string \<Rightarrow> uint64_t \<Rightarrow> string" and env :: Answers and dbname :: string
    and iter :: Iterator and meta :: FileMetaData
  assumes "entries iter \<noteq> []" and "ok (new_writable_file env)" and "ok (finish env)"
    and "0 < builder_file_size env"
  defines "fname \<equiv> TableFileName dbname (number meta)"
  defines "meta1 \<equiv> meta\<lparr>smallest := fst (hd (entries iter)),
                          largest := fst (last (entries iter)),
                          file_size := builder_file_size env\<rparr>"
  defines "written \<equiv> [Env_NewWritableFile fname, Builder_New]
                      @ map (\<lambda>(key, val). Builder_Add key val) (entries iter)
                      @ [Builder_Finish]"
  shows "(\<not> ok (sync env) \<longrightarrow>
            BuildTable TableFileName env dbname iter meta =
              Inr (if ok (status iter) then sync env else status iter, meta1,
                   written @ [File_Sync, Env_DeleteFile fname]))
       \<and> (ok (sync env) \<and> \<not> ok (close env) \<longrightarrow>
            BuildTable TableFileName env dbname iter meta =
              Inr (if ok (status iter) then close env else status iter, meta1,
                   written @ [File_Sync, File_Close, Env_DeleteFile fname]))
       \<and> (ok (sync env) \<and> ok (close env) \<longrightarrow>
            (\<exists>s post. BuildTable TableFileName env dbname iter meta =
              Inr (s, meta1, written @ [File_Sync, File_Close] @ post)))"
  using assms(1-4) unfolding fname_def meta1_def written_def
  by (auto simp: BuildTable_def Let_def add_entries_eq check_and_keep_def)

theorem BuildTable_sync_then_close_witness:
  "entries sample_iter \<noteq> [] \<and> ok (new_writable_file sample_answers)
   \<and> ok (finish sample_answers) \<and> 0 < builder_file_size sample_answers
   \<and> \<not> ok (IOError ''sync'')
   \<and> BuildTable sample_TableFileName (sample_answers\<lparr>sync := IOError ''sync''\<rparr>)
        ''db'' sample_iter sample_meta =
        Inr (IOError ''sync'',
             \<lparr>allowed_seeks = 0, number = 3, file_size = 120, smallest = [1], largest = [2]\<rparr>,
             [Env_NewWritableFile ''db/111.ldb'', Builder_New, Builder_Add [1] [10],
              Builder_Add [2] [20], Builder_Finish, File_Sync, Env_DeleteFile ''db/111.ldb''])
   \<and> \<not> ok (IOError ''close'')
   \<and> BuildTable sample_TableFileName (sample_answers\<lparr>close := IOError ''close''\<rparr>)
        ''db'' sample_iter sample_meta =
        Inr (IOError ''close'',
             \<lparr>allowed_seeks = 0, number = 3, file_size = 120, smallest = [1], largest = [2]\<rparr>,
             [Env_NewWritableFile ''db/111.ldb'', Builder_New, Builder_Add [1] [10],
              Builder_Add [2] [20], Builder_Finish, File_Sync, File_Close,
              Env_DeleteFile ''db/111.ldb''])"
proof -
  let ?env1 = "sample_answers\<lparr>sync := IOError ''sync''\<rparr>"
  let ?env2 = "sample_answers\<lparr>close := IOError ''close''\<rparr>"
  have h1: "entries sample_iter \<noteq> []" "ok (new_writable_file ?env1)" "ok (finish ?env1)"
    "0 < builder_file_size ?env1"
    using sample_facts by simp_all
  have h2: "entries sample_iter \<noteq> []" "ok (new_writable_file ?env2)" "ok (finish ?env2)"
    "0 < builder_file_size ?env2"
    using sample_facts by simp_all
  have f1: "\<not> ok (sync ?env1)" and f2: "ok (sync ?env2) \<and> \<not> ok (close ?env2)"
    using sample_facts by (simp_all add: ok_def)
  note t1 = BuildTable_sync_then_close [OF h1, of sample_TableFileName "''db''" sample_meta,
      THEN conjunct1, THEN mp, OF f1]
  note t2 = BuildTable_sync_then_close [OF h2, of sample_TableFileName "''db''" sample_meta,
      THEN conjunct2, THEN conjunct1, THEN mp, OF f2]
  from t1 t2 sample_facts show ?thesis
    by (simp add: sample_file_name sample_answers_def sample_iter_def sample_meta_def ok_def)
qed

text \<open>
  The claim as stated has the failure of \<open>Sync\<close> returned in every case; with an input
  iterator that ended on an error, the input's status is returned.
\<close>

theorem BuildTable_sync_then_close_counterexample:
  "BuildTable sample_TableFileName (sample_answers\<lparr>sync := IOError ''sync''\<rparr>)
     ''db'' (sample_iter\<lparr>status := Corruption ''input''\<rparr>) sample_meta =
     Inr (Corruption ''input'',
          \<lparr>allowed_seeks = 0, number = 3, file_size = 120, smallest = [1], largest = [2]\<rparr>,
          [Env_NewWritableFile ''db/111.ldb'', Builder_New, Builder_Add [1] [10],
           Builder_Add [2] [20], Builder_Finish, File_Sync, Env_DeleteFile ''db/111.ldb''])
   \<and> Corruption ''input'' \<noteq> sync (sample_answers\<lparr>sync := IOError ''sync''\<rparr>)"
  by (simp add: BuildTable_def check_and_keep_def sample_file_name sample_answers_def
      sample_iter_def sample_meta_def ok_def Let_def)

text \<open>
  Claim C9. For an input iterator that yields no entry and whose status is OK,
  \<open>BuildTable\<close> returns OK with \<open>file_size\<close> 0 in \<open>meta\<close>; it creates neither the file nor a
  table builder, and its only call deletes the file of the table's name.
\<close>

theorem BuildTable_empty_input:
  assumes "entries iter = []" and "ok (status iter)"
  shows "BuildTable TableFileName env dbname iter meta =
           Inr (OK, meta\<lparr>file_size := 0\<rparr>, [Env_DeleteFile (TableFileName dbname (number meta))])"
  using assms by (simp add: BuildTable_def Let_def check_and_keep_def ok_def)

theorem BuildTable_empty_input_witness:
  "entries (sample_iter\<lparr>entries := []\<rparr>) = [] \<and> ok (status (sample_iter\<lparr>entries := []\<rparr>))
   \<and> BuildTable sample_TableFileName sample_answers ''db'' (sample_iter\<lparr>entries := []\<rparr>)
        sample_meta =
        Inr (OK, \<lparr>allowed_seeks = 0, number = 3, file_size = 0, smallest = [], largest = []\<rparr>,
             [Env_DeleteFile ''db/111.ldb''])"
proof -
  let ?it = "sample_iter\<lparr>entries := []\<rparr>"
  have a: "entries ?it = []" by simp
  have b: "ok (status ?it)" by (simp add: sample_iter_def ok_def)
  from BuildTable_empty_input [OF a b, of sample_TableFileName sample_answers "''db''" sample_meta]
    a b show ?thesis
    by (simp add: sample_file_name sample_meta_def)
qed

section \<open>The claims about the coordinator\<close>

lemma MaybeScheduleCompaction_idem:
  "MaybeScheduleCompaction (MaybeScheduleCompaction db) = MaybeScheduleCompaction db"
  by (simp add: MaybeScheduleCompaction_def)

lemma step_one_task:
  assumes "background_tasks db \<le> 1"
    and "background_compaction_scheduled db \<longleftrightarrow> background_tasks db = 1"
  shows "background_tasks (step db a) \<le> 1
         \<and> (background_compaction_scheduled (step db a) \<longleftrightarrow> background_tasks (step db a) = 1)"
  using assms
  by (cases a) (auto simp: MaybeScheduleCompaction_def BackgroundCall_exit_def)

lemma run_one_task:
  assumes "background_tasks db \<le> 1"
    and "background_compaction_scheduled db \<longleftrightarrow> background_tasks db = 1"
  shows "background_tasks (run db steps) \<le> 1
         \<and> (background_compaction_scheduled (run db steps) \<longleftrightarrow> background_tasks (run db steps) = 1)"
  using assms unfolding run_def
proof (induction steps arbitrary: db)
  case Nil
  then show ?case by simp
next
  case (Cons a steps)
  from step_one_task [OF Cons.prems, of a] Cons.IH [of "step db a"] show ?case by simp
qed

lemma MakeRoomForWrite_loop_sleeps:
  "count_list (snd (snd (MakeRoomForWrite_loop force delayed others db acts))) Sleep_1ms
     \<le> count_list acts Sleep_1ms + (if delayed then 0 else 1)"
proof (induction force delayed others db acts rule: MakeRoomForWrite_loop.induct)
  case (1 force delayed others db acts)
  then show ?case
    by (subst MakeRoomForWrite_loop.simps) (auto split: list.splits)
qed

lemma MakeRoomForWrite_bg_error:
  "\<not> ok (bg_error db) \<Longrightarrow> MakeRoomForWrite force others db = (Some (bg_error db), db, [])"
  by (simp add: MakeRoomForWrite_def MakeRoomForWrite_loop.simps)

lemma sample_make_room:
  "MakeRoomForWrite False [id, sample_flush_done] sample_db =
     (Some OK,
      \<lparr>bg_error = OK, mem = 0, imm = Some 5000, write_buffer_size = 4096,
        logfile_number = 9, log_number = 5, next_file_number = 10, l0_files = 10,
        needs_compaction = True, manual_compaction = False,
        background_compaction_scheduled = True, background_tasks = 1,
        descriptor = []\<rparr>,
      [Sleep_1ms, Wait_Background_Work, Roll_WAL 9])"
  by (simp add: MakeRoomForWrite_def MakeRoomForWrite_loop.simps sample_db_def
      sample_flush_done_def roll_wal_def MaybeScheduleCompaction_def work_exists_def ok_def
      kL0_SlowdownWritesTrigger_def kL0_StopWritesTrigger_def)

text \<open>
  Claim C6. \<open>CompactMemTable\<close> writes a new record to the descriptor, moves the log number
  to the current log file and clears \<open>imm\<close> (deleting the obsolete files) if and only if
  the flush succeeds, that is when both the writing of the table and the application of
  its edit do (steps 1 to 5 of section 4.3). On a failure of either, the status is
  recorded in \<open>bg_error\<close>, nothing else changes, and every later \<open>MakeRoomForWrite\<close>, with
  which a write begins, returns that error.
\<close>

theorem CompactMemTable_iff_success:
  fixes env :: FlushAnswers and db :: Coordinator
  defines "edit \<equiv> \<lparr>edit_level = chosen_level env, edit_file = new_file env,
                     edit_log_number = logfile_number db\<rparr>"
  defines "failure \<equiv> (if \<not> ok (write_level0_table env) then write_level0_table env
                       else log_and_apply env)"
  shows "(ok (write_level0_table env) \<and> ok (log_and_apply env) \<longrightarrow>
            CompactMemTable env db =
              (db\<lparr>log_number := logfile_number db,
                  descriptor := descriptor db @ [edit],
                  l0_files := (if chosen_level env = 0 then l0_files db + 1 else l0_files db),
                  needs_compaction := compaction_needed env,
                  imm := None\<rparr>,
               [Write_Level0_Table, Write_Descriptor edit, Delete_Obsolete_Files]))
       \<and> (\<not> (ok (write_level0_table env) \<and> ok (log_and_apply env)) \<longrightarrow>
            CompactMemTable env db = (db\<lparr>bg_error := failure\<rparr>, [Write_Level0_Table])
            \<and> \<not> ok failure
            \<and> (\<forall>force others.
                  MakeRoomForWrite force others (fst (CompactMemTable env db))
                    = (Some failure, fst (CompactMemTable env db), [])))
       \<and> ((Write_Descriptor edit \<in> set (snd (CompactMemTable env db))
            \<and> descriptor (fst (CompactMemTable env db)) = descriptor db @ [edit]
            \<and> log_number (fst (CompactMemTable env db)) = logfile_number db
            \<and> imm (fst (CompactMemTable env db)) = None)
           = (ok (write_level0_table env) \<and> ok (log_and_apply env)))"
  unfolding edit_def failure_def
  by (auto simp: CompactMemTable_def Let_def MakeRoomForWrite_bg_error)

theorem CompactMemTable_iff_success_witness:
  "ok (write_level0_table sample_flush) \<and> ok (log_and_apply sample_flush)
   \<and> CompactMemTable sample_flush sample_db =
       (sample_db\<lparr>log_number := 7,
                   descriptor := [\<lparr>edit_level = 0, edit_file = 8, edit_log_number = 7\<rparr>],
                   l0_files := 10, needs_compaction := True, imm := None\<rparr>,
        [Write_Level0_Table, Write_Descriptor \<lparr>edit_level = 0, edit_file = 8, edit_log_number = 7\<rparr>,
         Delete_Obsolete_Files])
   \<and> \<not> (ok (write_level0_table (sample_flush\<lparr>write_level0_table := IOError ''disk full''\<rparr>))
         \<and> ok (log_and_apply (sample_flush\<lparr>write_level0_table := IOError ''disk full''\<rparr>)))
   \<and> CompactMemTable (sample_flush\<lparr>write_level0_table := IOError ''disk full''\<rparr>) sample_db =
       (sample_db\<lparr>bg_error := IOError ''disk full''\<rparr>, [Write_Level0_Table])
   \<and> MakeRoomForWrite False [] (sample_db\<lparr>bg_error := IOError ''disk full''\<rparr>) =
       (Some (IOError ''disk full''), sample_db\<lparr>bg_error := IOError ''disk full''\<rparr>, [])"
proof -
  let ?bad = "sample_flush\<lparr>write_level0_table := IOError ''disk full''\<rparr>"
  have good: "ok (write_level0_table sample_flush) \<and> ok (log_and_apply sample_flush)"
    by (simp add: sample_flush_def ok_def)
  have bad: "\<not> (ok (write_level0_table ?bad) \<and> ok (log_and_apply ?bad))"
    by (simp add: ok_def)
  note t1 = CompactMemTable_iff_success [of sample_flush sample_db, THEN conjunct1, THEN mp, OF good]
  note t2 = CompactMemTable_iff_success [of ?bad sample_db, THEN conjunct2, THEN conjunct1,
      THEN mp, OF bad]
  from t2 have run: "CompactMemTable ?bad sample_db =
       (sample_db\<lparr>bg_error := IOError ''disk full''\<rparr>, [Write_Level0_Table])"
    by (simp add: ok_def)
  note t3 = t2 [THEN conjunct2, THEN conjunct2, THEN spec, THEN spec, of False "[]"]
  from t3 have wr: "MakeRoomForWrite False [] (sample_db\<lparr>bg_error := IOError ''disk full''\<rparr>) =
       (Some (IOError ''disk full''), sample_db\<lparr>bg_error := IOError ''disk full''\<rparr>, [])"
    by (simp add: run ok_def)
  from t1 have ok_run: "CompactMemTable sample_flush sample_db =
       (sample_db\<lparr>log_number := 7,
                   descriptor := [\<lparr>edit_level = 0, edit_file = 8, edit_log_number = 7\<rparr>],
                   l0_files := 10, needs_compaction := True, imm := None\<rparr>,
        [Write_Level0_Table, Write_Descriptor \<lparr>edit_level = 0, edit_file = 8, edit_log_number = 7\<rparr>,
         Delete_Obsolete_Files])"
    by (simp add: sample_flush_def sample_db_def)
  from good bad run wr ok_run show ?thesis by blast
qed

text \<open>
  Claim C7. \<open>MaybeScheduleCompaction\<close> is idempotent, and in every state the coordinator
  reaches from one without a background task (by calls of \<open>MaybeScheduleCompaction\<close>,
  exits of the background task and changes of the work to do) at most one background
  task is scheduled or running, \<open>background_compaction_scheduled\<close> says whether one is, and
  a call schedules a task only when there is work and no task is scheduled.
\<close>

theorem MaybeScheduleCompaction_one_task:
  assumes "\<not> background_compaction_scheduled db0" and "background_tasks db0 = 0"
  shows "MaybeScheduleCompaction (MaybeScheduleCompaction (run db0 steps))
           = MaybeScheduleCompaction (run db0 steps)
         \<and> background_tasks (run db0 steps) \<le> 1
         \<and> (background_compaction_scheduled (run db0 steps)
              \<longleftrightarrow> background_tasks (run db0 steps) = 1)
         \<and> (MaybeScheduleCompaction (run db0 steps) \<noteq> run db0 steps
              \<longrightarrow> work_exists (run db0 steps) \<and> background_tasks (run db0 steps) = 0
                  \<and> background_tasks (MaybeScheduleCompaction (run db0 steps)) = 1)"
proof -
  have inv: "background_tasks (run db0 steps) \<le> 1
         \<and> (background_compaction_scheduled (run db0 steps) \<longleftrightarrow> background_tasks (run db0 steps) = 1)"
    using assms by (intro run_one_task) simp_all
  then show ?thesis
    by (auto simp: MaybeScheduleCompaction_idem MaybeScheduleCompaction_def)
qed

theorem MaybeScheduleCompaction_one_task_witness:
  "\<not> background_compaction_scheduled (sample_db\<lparr>background_compaction_scheduled := False, background_tasks := 0\<rparr>)
   \<and> background_tasks (sample_db\<lparr>background_compaction_scheduled := False, background_tasks := 0\<rparr>) = 0
   \<and> background_tasks
        (run (sample_db\<lparr>background_compaction_scheduled := False, background_tasks := 0\<rparr>)
           [Call_MaybeScheduleCompaction, Call_MaybeScheduleCompaction, Worker_Exit,
            Call_MaybeScheduleCompaction]) \<le> 1
   \<and> background_tasks
        (run (sample_db\<lparr>background_compaction_scheduled := False, background_tasks := 0\<rparr>)
           [Call_MaybeScheduleCompaction, Call_MaybeScheduleCompaction, Worker_Exit,
            Call_MaybeScheduleCompaction]) = 1"
proof -
  let ?db0 = "sample_db\<lparr>background_compaction_scheduled := False, background_tasks := 0\<rparr>"
  have a: "\<not> background_compaction_scheduled ?db0" and b: "background_tasks ?db0 = 0"
    by simp_all
  have c: "background_tasks
        (run ?db0 [Call_MaybeScheduleCompaction, Call_MaybeScheduleCompaction, Worker_Exit,
            Call_MaybeScheduleCompaction]) = 1"
    by (simp add: run_def MaybeScheduleCompaction_def BackgroundCall_exit_def work_exists_def
        sample_db_def)
  from MaybeScheduleCompaction_one_task [OF a b, THEN conjunct2, THEN conjunct1] a b c
  show ?thesis by blast
qed

text \<open>
  Claim C8. In one call of \<open>MakeRoomForWrite\<close> the writer sleeps for the one millisecond
  at most once, whatever the number of rounds of the loop and whatever the other threads
  do while it sleeps or waits.
\<close>

theorem MakeRoomForWrite_sleeps_at_most_once:
  "count_list (snd (snd (MakeRoomForWrite force others db))) Sleep_1ms \<le> 1"
  using MakeRoomForWrite_loop_sleeps [of force False others db "[]"]
  by (simp add: MakeRoomForWrite_def)

theorem MakeRoomForWrite_sleeps_at_most_once_witness:
  "snd (snd (MakeRoomForWrite False [id, sample_flush_done] sample_db))
     = [Sleep_1ms, Wait_Background_Work, Roll_WAL 9]
   \<and> count_list (snd (snd (MakeRoomForWrite False [id, sample_flush_done] sample_db))) Sleep_1ms \<le> 1"
  using MakeRoomForWrite_sleeps_at_most_once [of False "[id, sample_flush_done]" sample_db]
  by (simp add: sample_make_room)

end
